theory Spec2Isabelle
  imports Complex_Main "HOL-Library.AList"
begin

section \<open>Common data: Python errors, overlap sections, geometry\<close>

text \<open>
  The exceptions the modelled functions can raise. A function that can raise returns
  \<open>py_error + 'a\<close>, with \<open>Inl\<close> for the exception. Python floats are modelled as
  exact reals: the properties below are about which quantities are multiplied, summed
  and divided, not about rounding.
\<close>

datatype py_error = KeyError | ValueError | ZeroDivisionError

text \<open>
  One entry of a cell's list in the cell-to-block map, as
  \<open>create_sezioni_censimento_millan_grid_map\<close> writes it (\<open>milanSection\<close>). Of the
  \<open>censusCodes\<close> dictionary only the \<open>SEZ2011\<close> code is ever read by the graph code,
  so the entry keeps that code, already converted by \<open>int(...)\<close>.
\<close>

record census_section =
  censusAreaPercentage :: real
  milanAreaPercentage :: real
  SEZ2011 :: int

text \<open>
  One entry of a block's list in the reversed (block-to-cell) map, as
  \<open>milan_grid_census_blocks_map_reverse\<close> writes it: the cell's entry plus the key
  \<open>cellID\<close>. The type of the cell identifier is a parameter: \<open>mi_to_mi_blocks\<close> reads
  it through \<open>int(...)\<close>, \<open>mi_to_countries_blocks\<close> as the string itself.
\<close>

record 'c cell_section = census_section +
  cellID :: 'c

text \<open>
  The polygon operations come from the shapely library: the area of a polygon, the
  \<open>overlaps\<close> predicate and the area of the intersection of two polygons. They are
  parameters of the mapper.
\<close>

record 'p geometry =
  area :: "'p \<Rightarrow> real"
  overlaps :: "'p \<Rightarrow> 'p \<Rightarrow> bool"
  intersection_area :: "'p \<Rightarrow> 'p \<Rightarrow> real"

section \<open>The overlap mapper (milan\_grid\_census\_codes\_map.py)\<close>

text \<open>
  \<^verbatim>\<open>
  if milanAreaPercentage < 1e-4:   milanAreaPercentage = 0
  elif milanAreaPercentage > 0.9999: milanAreaPercentage = 1
  \<close>
  The same two lines are applied to \<open>censusAreaPercentage\<close>.
\<close>

definition round_float_error :: "real \<Rightarrow> real" where
  "round_float_error p =
     (if p < 1 / 10000 then 0 else if p > 9999 / 10000 then 1 else p)"

text \<open>Python's true division of floats: division by zero raises.\<close>

definition py_truediv :: "real \<Rightarrow> real \<Rightarrow> py_error + real" where
  "py_truediv a b = (if b = 0 then Inl ZeroDivisionError else Inr (a / b))"

text \<open>
  The body of the inner loop for a pair that overlaps: the intersection area is taken
  once, divided by the cell's area and by the census polygon's area, and both quotients
  are rounded. A census polygon is the pair of its \<open>SEZ2011\<close> code and its polygon.
\<close>

definition milanSection ::
  "'p geometry \<Rightarrow> 'p \<Rightarrow> int \<times> 'p \<Rightarrow> py_error + census_section" where
  "milanSection G milanPolygon censusPolygon =
     (let milanArea = area G milanPolygon;
          censusArea = area G (snd censusPolygon);
          intersectArea = intersection_area G milanPolygon (snd censusPolygon)
      in case py_truediv intersectArea milanArea of
           Inl e \<Rightarrow> Inl e
         | Inr mp \<Rightarrow>
             (case py_truediv intersectArea censusArea of
                Inl e \<Rightarrow> Inl e
              | Inr cp \<Rightarrow>
                  Inr \<lparr>censusAreaPercentage = round_float_error cp,
                       milanAreaPercentage = round_float_error mp,
                       SEZ2011 = fst censusPolygon\<rparr>))"

text \<open>The inner loop: the census polygons that overlap one cell, in input order.\<close>

fun cell_sections ::
  "'p geometry \<Rightarrow> 'p \<Rightarrow> (int \<times> 'p) list \<Rightarrow> py_error + census_section list" where
  "cell_sections G milanPolygon [] = Inr []"
| "cell_sections G milanPolygon (censusPolygon # rest) =
     (if overlaps G milanPolygon (snd censusPolygon)
      then (case milanSection G milanPolygon censusPolygon of
              Inl e \<Rightarrow> Inl e
            | Inr s \<Rightarrow>
                (case cell_sections G milanPolygon rest of
                   Inl e \<Rightarrow> Inl e
                 | Inr ss \<Rightarrow> Inr (s # ss)))
      else cell_sections G milanPolygon rest)"

text \<open>
  The outer loop: \<open>grid[cellId]\<close> is set to the cell's list. The grid is a dictionary
  in insertion order; a cell is the pair of its \<open>cellId\<close> and its polygon.
\<close>

fun create_grid ::
  "'p geometry \<Rightarrow> (int \<times> 'p) list \<Rightarrow> (int \<times> 'p) list \<Rightarrow>
   (int \<times> census_section list) list \<Rightarrow> py_error + (int \<times> census_section list) list" where
  "create_grid G [] censusPolygons grid = Inr grid"
| "create_grid G (milanPolygon # rest) censusPolygons grid =
     (case cell_sections G (snd milanPolygon) censusPolygons of
        Inl e \<Rightarrow> Inl e
      | Inr ss \<Rightarrow>
          create_grid G rest censusPolygons (AList.update (fst milanPolygon) ss grid))"

definition create_sezioni_censimento_millan_grid_map ::
  "'p geometry \<Rightarrow> (int \<times> 'p) list \<Rightarrow> (int \<times> 'p) list \<Rightarrow>
   py_error + (int \<times> census_section list) list" where
  "create_sezioni_censimento_millan_grid_map G censusPolygons milanPolygons =
     create_grid G milanPolygons censusPolygons []"


text \<open>
  A geometry for concrete evaluations: axis-aligned rectangles \<open>(x0, y0, x1, y1)\<close>
  with \<open>x0 < x1\<close> and \<open>y0 < y1\<close>. Two rectangles overlap, in shapely's sense, when
  their interiors meet and neither contains the other.
\<close>

type_synonym rect = "real \<times> real \<times> real \<times> real"

fun rect_area :: "rect \<Rightarrow> real" where
  "rect_area (x0, y0, x1, y1) = (x1 - x0) * (y1 - y0)"

fun rect_intersection_area :: "rect \<Rightarrow> rect \<Rightarrow> real" where
  "rect_intersection_area (x0, y0, x1, y1) (u0, v0, u1, v1) =
     max 0 (min x1 u1 - max x0 u0) * max 0 (min y1 v1 - max y0 v0)"

fun rect_contains :: "rect \<Rightarrow> rect \<Rightarrow> bool" where
  "rect_contains (x0, y0, x1, y1) (u0, v0, u1, v1) =
     (x0 \<le> u0 \<and> u1 \<le> x1 \<and> y0 \<le> v0 \<and> v1 \<le> y1)"

definition rect_overlaps :: "rect \<Rightarrow> rect \<Rightarrow> bool" where
  "rect_overlaps p q =
     (0 < rect_intersection_area p q \<and> \<not> rect_contains p q \<and> \<not> rect_contains q p)"

definition rect_geometry :: "rect geometry" where
  "rect_geometry =
     \<lparr>area = rect_area, overlaps = rect_overlaps,
      intersection_area = rect_intersection_area\<rparr>"

section \<open>Undirected weighted graphs (networkx.Graph)\<close>

text \<open>
  The values a node attribute can hold: JSON's null, numbers and strings, and (for
  \<open>SEZ2011\<close> of a block without census data) the node itself, an integer.
\<close>

datatype json_val = JNull | JInt int | JStr string

text \<open>
  A \<open>networkx.Graph\<close> as its three dictionaries: the nodes in insertion order, the
  attribute dictionary of each node, and the adjacency dictionary of each node (its
  neighbours in insertion order, each with the \<open>weight\<close> of the edge). An undirected
  edge \<open>{u, v}\<close> is stored in the adjacency of \<open>u\<close> and in that of \<open>v\<close>; networkx
  stores one attribute dictionary in both places, so the model writes both entries
  whenever a weight is written.
\<close>

record 'n graph =
  nodes :: "'n list"
  node_attrs :: "'n \<Rightarrow> (string \<times> json_val) list"
  adj :: "'n \<Rightarrow> ('n \<times> real) list"

definition empty_graph :: "'n graph" where
  "empty_graph = \<lparr>nodes = [], node_attrs = (\<lambda>_. []), adj = (\<lambda>_. [])\<rparr>"

definition has_node :: "'n graph \<Rightarrow> 'n \<Rightarrow> bool" where
  "has_node g n = (n \<in> set (nodes g))"

text \<open>\<open>G.add_node(n)\<close> without attributes: a new node gets empty dictionaries, an
  existing node is left as it is.\<close>

definition add_node :: "'n graph \<Rightarrow> 'n \<Rightarrow> 'n graph" where
  "add_node g n =
     (if has_node g n then g
      else g\<lparr>nodes := nodes g @ [n],
             node_attrs := (node_attrs g)(n := []),
             adj := (adj g)(n := [])\<rparr>)"

text \<open>\<open>G.edges[u, v]['weight']\<close>: \<open>None\<close> stands for the KeyError of a missing edge.\<close>

definition edge_weight :: "'n graph \<Rightarrow> 'n \<Rightarrow> 'n \<Rightarrow> real option" where
  "edge_weight g u v = (if has_node g u then map_of (adj g u) v else None)"

text \<open>Writing the weight of the edge \<open>{u, v}\<close>, seen from both ends.\<close>

definition set_weight :: "'n graph \<Rightarrow> 'n \<Rightarrow> 'n \<Rightarrow> real \<Rightarrow> 'n graph" where
  "set_weight g u v w =
     g\<lparr>adj := (\<lambda>n. if n = u then AList.update v w (adj g u)
                    else if n = v then AList.update u w (adj g v)
                    else adj g n)\<rparr>"

text \<open>\<open>G.add_edge(u, v, weight=w)\<close>: both ends become nodes, then the weight is set.\<close>

definition add_edge :: "'n graph \<Rightarrow> 'n \<Rightarrow> 'n \<Rightarrow> real \<Rightarrow> 'n graph" where
  "add_edge g u v w = set_weight (add_node (add_node g u) v) u v w"

text \<open>
  The accumulation idiom every graph builder of the repository uses:
  \<^verbatim>\<open>
  try:
      graph.edges[u, v]['weight'] += w
  except KeyError:
      graph.add_edge(u, v, weight=w)
  \<close>
\<close>

definition add_weight :: "'n graph \<Rightarrow> 'n \<Rightarrow> 'n \<Rightarrow> real \<Rightarrow> 'n graph" where
  "add_weight g u v w =
     (case edge_weight g u v of
        Some old \<Rightarrow> set_weight g u v (old + w)
      | None \<Rightarrow> add_edge g u v w)"

text \<open>
  \<open>G.edges([n], data=True)\<close>: the edges at \<open>n\<close> as triples \<open>(n, neighbour, weight)\<close>;
  a node that is not in the graph has none.
\<close>

definition edges_at :: "'n graph \<Rightarrow> 'n \<Rightarrow> ('n \<times> 'n \<times> real) list" where
  "edges_at g n =
     (if has_node g n then map (\<lambda>(nbr, w). (n, nbr, w)) (adj g n) else [])"

text \<open>
  \<^verbatim>\<open>
  for (node1, node2) in blocksGraph.edges():
      blocksGraph.edges[node1, node2]['weight'] /= 2
  \<close>
  \<open>edges()\<close> reports every undirected edge once and both adjacency entries of an edge
  hold the same attribute dictionary, so every stored weight is divided once.
\<close>

definition halve_weights :: "'n graph \<Rightarrow> 'n graph" where
  "halve_weights g = g\<lparr>adj := (\<lambda>n. map (\<lambda>(nbr, w). (nbr, w / 2)) (adj g n))\<rparr>"

text \<open>The weight between two nodes, 0 when there is no edge.\<close>

definition wt :: "'n graph \<Rightarrow> 'n \<Rightarrow> 'n \<Rightarrow> real" where
  "wt g u v = (case edge_weight g u v of Some w \<Rightarrow> w | None \<Rightarrow> 0)"

text \<open>
  The shape networkx keeps: an edge is seen with the same weight from both ends, and
  only nodes have neighbours.
\<close>

definition wf_graph :: "'n graph \<Rightarrow> bool" where
  "wf_graph g =
     ((\<forall>a b. map_of (adj g a) b = map_of (adj g b) a) \<and>
      (\<forall>a. \<not> has_node g a \<longrightarrow> adj g a = []))"

section \<open>Block-to-block redistribution (mi\_to\_mi\_blocks.py)\<close>

text \<open>
  \<open>create_census_blocks_graph\<close>, innermost loop first. \<open>blocksMap\<close> is the reversed
  map (its keys already through \<open>int(...)\<close>), \<open>cellsGraph\<close> the cell-to-cell graph,
  \<open>cellsMap\<close> the cell-to-block map. The loop over \<open>blockTo\<close>:
\<close>

fun for_blockTo ::
  "int graph \<Rightarrow> int \<Rightarrow> real \<Rightarrow> int cell_section \<Rightarrow> census_section list \<Rightarrow> int graph" where
  "for_blockTo blocksGraph sez cellEdgeWeight cellFrom [] = blocksGraph"
| "for_blockTo blocksGraph sez cellEdgeWeight cellFrom (blockTo # rest) =
     (let destSEZ2011 = SEZ2011 blockTo;
          g1 = (if \<not> has_node blocksGraph destSEZ2011
                then add_node blocksGraph destSEZ2011 else blocksGraph);
          weight = cellEdgeWeight * censusAreaPercentage cellFrom
                     * censusAreaPercentage blockTo
      in for_blockTo (add_weight g1 sez destSEZ2011 weight) sez cellEdgeWeight cellFrom rest)"

text \<open>The loop over the edges at \<open>cellFrom\<close>; \<open>cellsMap[str(cellNodeTo)]\<close> can raise.\<close>

fun for_cell_edges ::
  "int graph \<Rightarrow> (int \<times> census_section list) list \<Rightarrow> int \<Rightarrow> int cell_section \<Rightarrow>
   (int \<times> int \<times> real) list \<Rightarrow> py_error + int graph" where
  "for_cell_edges blocksGraph cellsMap sez cellFrom [] = Inr blocksGraph"
| "for_cell_edges blocksGraph cellsMap sez cellFrom ((cellNodeFrom, cellNodeTo, w) # rest) =
     (case map_of cellsMap cellNodeTo of
        None \<Rightarrow> Inl KeyError
      | Some blocks \<Rightarrow>
          for_cell_edges (for_blockTo blocksGraph sez w cellFrom blocks)
            cellsMap sez cellFrom rest)"

text \<open>The loop over the cells of one block.\<close>

fun for_cellsFrom ::
  "int graph \<Rightarrow> int graph \<Rightarrow> (int \<times> census_section list) list \<Rightarrow> int \<Rightarrow>
   int cell_section list \<Rightarrow> py_error + int graph" where
  "for_cellsFrom blocksGraph cellsGraph cellsMap sez [] = Inr blocksGraph"
| "for_cellsFrom blocksGraph cellsGraph cellsMap sez (cellFrom # rest) =
     (case for_cell_edges blocksGraph cellsMap sez cellFrom
             (edges_at cellsGraph (cellID cellFrom)) of
        Inl e \<Rightarrow> Inl e
      | Inr g \<Rightarrow> for_cellsFrom g cellsGraph cellsMap sez rest)"

text \<open>The loop over \<open>blocksMap.items()\<close>.\<close>

fun for_blocksMap ::
  "int graph \<Rightarrow> int graph \<Rightarrow> (int \<times> census_section list) list \<Rightarrow>
   (int \<times> int cell_section list) list \<Rightarrow> py_error + int graph" where
  "for_blocksMap blocksGraph cellsGraph cellsMap [] = Inr blocksGraph"
| "for_blocksMap blocksGraph cellsGraph cellsMap ((sez, cellsFrom) # rest) =
     (let g1 = (if \<not> has_node blocksGraph sez
                then add_node blocksGraph sez else blocksGraph)
      in case for_cellsFrom g1 cellsGraph cellsMap sez cellsFrom of
           Inl e \<Rightarrow> Inl e
         | Inr g \<Rightarrow> for_blocksMap g cellsGraph cellsMap rest)"

text \<open>The whole function: the loops from the empty graph, then the halving.\<close>

definition create_census_blocks_graph ::
  "(int \<times> int cell_section list) list \<Rightarrow> int graph \<Rightarrow>
   (int \<times> census_section list) list \<Rightarrow> py_error + int graph" where
  "create_census_blocks_graph blocksMap cellsGraph cellsMap =
     (case for_blocksMap empty_graph cellsGraph cellsMap blocksMap of
        Inl e \<Rightarrow> Inl e
      | Inr g \<Rightarrow> Inr (halve_weights g))"

text \<open>
  What the loops add, as a list of triples (block, block, weight), one loop at a time:
  for one edge at \<open>cellFrom\<close>, one triple for every block of the edge's other end.
\<close>

definition blockTo_contributions ::
  "int \<Rightarrow> real \<Rightarrow> int cell_section \<Rightarrow> census_section list \<Rightarrow> (int \<times> int \<times> real) list" where
  "blockTo_contributions sez w cellFrom blocks =
     map (\<lambda>blockTo. (sez, SEZ2011 blockTo,
            w * censusAreaPercentage cellFrom * censusAreaPercentage blockTo)) blocks"

text \<open>For one cell of a block: the triples of every edge at that cell.\<close>

definition cell_edge_contributions ::
  "(int \<times> census_section list) list \<Rightarrow> int \<Rightarrow> int cell_section \<Rightarrow>
   (int \<times> int \<times> real) list \<Rightarrow> (int \<times> int \<times> real) list" where
  "cell_edge_contributions cellsMap sez cellFrom es =
     concat (map (\<lambda>(cellNodeFrom, cellNodeTo, w).
        blockTo_contributions sez w cellFrom
          (case map_of cellsMap cellNodeTo of None \<Rightarrow> [] | Some blocks \<Rightarrow> blocks)) es)"

text \<open>For one block: the triples of every cell listed for it.\<close>

definition cellsFrom_contributions ::
  "int graph \<Rightarrow> (int \<times> census_section list) list \<Rightarrow> int \<Rightarrow> int cell_section list \<Rightarrow>
   (int \<times> int \<times> real) list" where
  "cellsFrom_contributions cellsGraph cellsMap sez cellsFrom =
     concat (map (\<lambda>cellFrom. cell_edge_contributions cellsMap sez cellFrom
                    (edges_at cellsGraph (cellID cellFrom))) cellsFrom)"

text \<open>For the whole of \<open>blocksMap\<close>.\<close>

definition block_contributions ::
  "(int \<times> int cell_section list) list \<Rightarrow> int graph \<Rightarrow>
   (int \<times> census_section list) list \<Rightarrow> (int \<times> int \<times> real) list" where
  "block_contributions blocksMap cellsGraph cellsMap =
     concat (map (\<lambda>(sez, cellsFrom).
               cellsFrom_contributions cellsGraph cellsMap sez cellsFrom) blocksMap)"

text \<open>
  The same list with the product the specification states: the edge weight times the
  source-side percentage of the from-cell's entry (\<open>milanAreaPercentage\<close>, intersection
  area over the cell's area) times the target-side percentage of the to-cell's entry
  (\<open>censusAreaPercentage\<close>, intersection area over the block's area).
\<close>

definition stated_block_contributions ::
  "(int \<times> int cell_section list) list \<Rightarrow> int graph \<Rightarrow>
   (int \<times> census_section list) list \<Rightarrow> (int \<times> int \<times> real) list" where
  "stated_block_contributions blocksMap cellsGraph cellsMap =
     concat (map (\<lambda>(sez, cellsFrom).
       concat (map (\<lambda>cellFrom.
         concat (map (\<lambda>(cellNodeFrom, cellNodeTo, w).
           map (\<lambda>blockTo.
                  (sez, SEZ2011 blockTo,
                   w * milanAreaPercentage cellFrom * censusAreaPercentage blockTo))
               (case map_of cellsMap cellNodeTo of None \<Rightarrow> [] | Some blocks \<Rightarrow> blocks))
           (edges_at cellsGraph (cellID cellFrom))))
         cellsFrom))
       blocksMap)"

text \<open>
  \<open>milan_grid_census_blocks_map_reverse\<close>: every entry of every cell is copied, with
  the cell's id as \<open>cellID\<close>, to the end of the list of the entry's block
  (\<open>blockMap\<close> is a \<open>defaultdict(list)\<close>: a new block gets a new key at the end).
\<close>

fun append_to_key :: "'k \<Rightarrow> 'v \<Rightarrow> ('k \<times> 'v list) list \<Rightarrow> ('k \<times> 'v list) list" where
  "append_to_key k v [] = [(k, [v])]"
| "append_to_key k v ((k', vs) # rest) =
     (if k' = k then (k', vs @ [v]) # rest else (k', vs) # append_to_key k v rest)"

fun reverse_blocks ::
  "'c \<Rightarrow> census_section list \<Rightarrow> (int \<times> 'c cell_section list) list \<Rightarrow>
   (int \<times> 'c cell_section list) list" where
  "reverse_blocks cellId [] blockMap = blockMap"
| "reverse_blocks cellId (block # rest) blockMap =
     reverse_blocks cellId rest
       (append_to_key (SEZ2011 block)
          \<lparr>censusAreaPercentage = censusAreaPercentage block,
           milanAreaPercentage = milanAreaPercentage block,
           SEZ2011 = SEZ2011 block, cellID = cellId\<rparr> blockMap)"

fun reverse_cells ::
  "('c \<times> census_section list) list \<Rightarrow> (int \<times> 'c cell_section list) list \<Rightarrow>
   (int \<times> 'c cell_section list) list" where
  "reverse_cells [] blockMap = blockMap"
| "reverse_cells ((cellId, blocks) # rest) blockMap =
     reverse_cells rest (reverse_blocks cellId blocks blockMap)"

definition milan_grid_census_blocks_map_reverse ::
  "('c \<times> census_section list) list \<Rightarrow> (int \<times> 'c cell_section list) list" where
  "milan_grid_census_blocks_map_reverse cellMap = reverse_cells cellMap []"

text \<open>The part of a contribution list that lands on the edge between \<open>a\<close> and \<open>b\<close>.\<close>

definition landed :: "'n \<Rightarrow> 'n \<Rightarrow> ('n \<times> 'n \<times> real) list \<Rightarrow> real" where
  "landed a b cs =
     sum_list (map (\<lambda>(u, v, w). if (u = a \<and> v = b) \<or> (u = b \<and> v = a) then w else 0) cs)"

section \<open>Python values and strings\<close>

text \<open>
  \<open>str(n)\<close> of an integer: its decimal digits, with a minus sign when negative.
\<close>

definition digit_char :: "nat \<Rightarrow> char" where
  "digit_char d = ''0123456789'' ! d"

fun str_nat :: "nat \<Rightarrow> string" where
  "str_nat n = (if n < 10 then [digit_char n] else str_nat (n div 10) @ [digit_char (n mod 10)])"

declare str_nat.simps [simp del]

definition str_int :: "int \<Rightarrow> string" where
  "str_int i = (if i < 0 then CHR ''-'' # str_nat (nat (- i)) else str_nat (nat i))"

text \<open>
  The nodes of the Milan-to-countries graphs are Python integers (census blocks) and
  Python strings (\<open>'m' + cell\<close>, \<open>'c' + country code\<close>).
\<close>

datatype pynode = NInt int | NStr string

fun py_str :: "pynode \<Rightarrow> string" where
  "py_str (NInt i) = str_int i"
| "py_str (NStr s) = s"

text \<open>\<open>s.startswith(c)\<close> for a one-character prefix.\<close>

definition startswith :: "string \<Rightarrow> char \<Rightarrow> bool" where
  "startswith s c = (case s of [] \<Rightarrow> False | x # _ \<Rightarrow> x = c)"

text \<open>
  The values a token of an input line can hold after \<open>validate\<close>: the string itself,
  an integer, a float, or the \<open>False\<close> that \<open>is_int\<close> and \<open>is_float\<close> return.
\<close>

datatype pyval = PStr string | PInt int | PFloat real | PBool bool

text \<open>
  Python's \<open>==\<close> on these values: numbers compare by value, with \<open>False\<close> as 0 and
  \<open>True\<close> as 1 (\<open>bool\<close> is a subclass of \<open>int\<close>); a string equals only the same string.
\<close>

fun py_num :: "pyval \<Rightarrow> real option" where
  "py_num (PStr s) = None"
| "py_num (PInt i) = Some (real_of_int i)"
| "py_num (PFloat r) = Some r"
| "py_num (PBool b) = Some (if b then 1 else 0)"

fun py_eq :: "pyval \<Rightarrow> pyval \<Rightarrow> bool" where
  "py_eq (PStr s) (PStr t) = (s = t)"
| "py_eq x y = (case (py_num x, py_num y) of (Some a, Some b) \<Rightarrow> a = b | _ \<Rightarrow> False)"

section \<open>Record validation (mi\_to\_countries.py)\<close>

text \<open>
  \<open>is_int\<close> and \<open>is_float\<close>: the empty string is returned as it is; otherwise the
  converted number, or \<open>False\<close> when \<open>int(s)\<close> or \<open>float(s)\<close> raises ValueError. The
  builtin conversions are parameters: \<open>None\<close> stands for their ValueError.
\<close>

definition is_int :: "(string \<Rightarrow> int option) \<Rightarrow> string \<Rightarrow> pyval" where
  "is_int int_of s =
     (if s = [] then PStr s
      else case int_of s of Some i \<Rightarrow> PInt i | None \<Rightarrow> PBool False)"

definition is_float :: "(string \<Rightarrow> real option) \<Rightarrow> string \<Rightarrow> pyval" where
  "is_float float_of s =
     (if s = [] then PStr s
      else case float_of s of Some r \<Rightarrow> PFloat r | None \<Rightarrow> PBool False)"

text \<open>
  The loop of \<open>validate\<close> over \<open>enumerate(tokens)\<close>, from index \<open>i\<close> on; the tokens
  before \<open>i\<close> are already replaced. The test that guards each \<open>raise\<close> is
  \<^verbatim>\<open>tokens[i] != 0 and tokens[i] == False\<close>.
\<close>

fun validate_from ::
  "(string \<Rightarrow> int option) \<Rightarrow> (string \<Rightarrow> real option) \<Rightarrow> nat \<Rightarrow> string list \<Rightarrow>
   py_error + pyval list" where
  "validate_from int_of float_of i [] = Inr []"
| "validate_from int_of float_of i (token # rest) =
     (if i = 1 then
        (case validate_from int_of float_of (Suc i) rest of
           Inl e \<Rightarrow> Inl e | Inr vs \<Rightarrow> Inr (PStr token # vs))
      else
        (let v = (if i < 3 then is_int int_of token else is_float float_of token)
         in if \<not> py_eq v (PInt 0) \<and> py_eq v (PBool False) then Inl ValueError
            else (case validate_from int_of float_of (Suc i) rest of
                    Inl e \<Rightarrow> Inl e | Inr vs \<Rightarrow> Inr (v # vs))))"

definition validate ::
  "(string \<Rightarrow> int option) \<Rightarrow> (string \<Rightarrow> real option) \<Rightarrow> string list \<Rightarrow>
   py_error + pyval list" where
  "validate int_of float_of tokens =
     (if length tokens \<noteq> 8 then Inl ValueError
      else validate_from int_of float_of 0 tokens)"

section \<open>Cell-to-country graphs (mi\_to\_countries.py)\<close>

text \<open>
  One connection of the JSON written by \<open>collect_json\<close>: the directional sums and the
  number of lines that added to each. The counts start at 0 and grow by
  \<open>+= 1\<close>, so they are natural numbers.
\<close>

record connectDict =
  smsIn :: real
  smsInCount :: nat
  smsOut :: real
  smsOutCount :: nat
  callIn :: real
  callInCount :: nat
  callOut :: real
  callOutCount :: nat
  cdr :: real

text \<open>
  \<^verbatim>\<open>
  if connectDict['callInCount'] > 0:
      callWeight += connectDict['callIn'] / connectDict['callInCount']
  \<close>
  with the division as Python has it, raising on a zero divisor.
\<close>

definition add_average :: "real \<Rightarrow> real \<Rightarrow> nat \<Rightarrow> py_error + real" where
  "add_average weight accumulated count =
     (if count > 0
      then (case py_truediv accumulated (real count) of
              Inl e \<Rightarrow> Inl e | Inr q \<Rightarrow> Inr (weight + q))
      else Inr weight)"

definition callWeight :: "connectDict \<Rightarrow> py_error + real" where
  "callWeight cd =
     (case add_average 0 (callIn cd) (callInCount cd) of
        Inl e \<Rightarrow> Inl e
      | Inr w \<Rightarrow> add_average w (callOut cd) (callOutCount cd))"

definition smsWeight :: "connectDict \<Rightarrow> py_error + real" where
  "smsWeight cd =
     (case add_average 0 (smsIn cd) (smsInCount cd) of
        Inl e \<Rightarrow> Inl e
      | Inr w \<Rightarrow> add_average w (smsOut cd) (smsOutCount cd))"

text \<open>The three graphs \<open>json_to_networkx\<close> builds in one pass.\<close>

record graphs =
  graphCall :: "pynode graph"
  graphSMS :: "pynode graph"
  graphInternet :: "pynode graph"

text \<open>\<open>if node2 not in G.nodes: G.add_node(node2)\<close>\<close>

definition ensure_node :: "'n graph \<Rightarrow> 'n \<Rightarrow> 'n graph" where
  "ensure_node g n = (if \<not> has_node g n then add_node g n else g)"

text \<open>The inner loop, over the countries of one cell; \<open>node1\<close> is already \<open>'m' + str(cell)\<close>.\<close>

fun for_innerDict ::
  "graphs \<Rightarrow> pynode \<Rightarrow> (string \<times> connectDict) list \<Rightarrow> py_error + graphs" where
  "for_innerDict gs node1 [] = Inr gs"
| "for_innerDict gs node1 ((code, cd) # rest) =
     (let node2 = NStr (CHR ''c'' # code);
          gc = ensure_node (graphCall gs) node2;
          gi = ensure_node (graphInternet gs) node2;
          gm = ensure_node (graphSMS gs) node2
      in case callWeight cd of
           Inl e \<Rightarrow> Inl e
         | Inr cw \<Rightarrow>
             (case smsWeight cd of
                Inl e \<Rightarrow> Inl e
              | Inr sw \<Rightarrow>
                  for_innerDict
                    \<lparr>graphCall = add_weight gc node1 node2 cw,
                     graphSMS = add_weight gm node1 node2 sw,
                     graphInternet = add_weight gi node1 node2 (cdr cd)\<rparr>
                    node1 rest))"

text \<open>The outer loop, over the cells; the keys are read through \<open>int(...)\<close>.\<close>

fun for_graphDict ::
  "graphs \<Rightarrow> (int \<times> (string \<times> connectDict) list) list \<Rightarrow> py_error + graphs" where
  "for_graphDict gs [] = Inr gs"
| "for_graphDict gs ((cell, innerDict) # rest) =
     (let node1 = NStr (CHR ''m'' # str_int cell);
          gs1 = \<lparr>graphCall = add_node (graphCall gs) node1,
                 graphSMS = add_node (graphSMS gs) node1,
                 graphInternet = add_node (graphInternet gs) node1\<rparr>
      in case for_innerDict gs1 node1 innerDict of
           Inl e \<Rightarrow> Inl e
         | Inr gs2 \<Rightarrow> for_graphDict gs2 rest)"

definition json_to_networkx ::
  "(int \<times> (string \<times> connectDict) list) list \<Rightarrow> py_error + graphs" where
  "json_to_networkx graphDict =
     for_graphDict
       \<lparr>graphCall = empty_graph, graphSMS = empty_graph, graphInternet = empty_graph\<rparr>
       graphDict"

text \<open>
  The weight rule in the words of the specification: each directional sum divided by
  its own count when the count is nonzero, 0 for a direction whose count is zero, and
  the two directional averages added.
\<close>

definition directional_average :: "real \<Rightarrow> nat \<Rightarrow> real" where
  "directional_average accumulated count = (if count \<noteq> 0 then accumulated / real count else 0)"

text \<open>For the countries of one cell, as triples (cell node, country node, weight).\<close>

definition inner_call ::
  "pynode \<Rightarrow> (string \<times> connectDict) list \<Rightarrow> (pynode \<times> pynode \<times> real) list" where
  "inner_call node1 innerDict =
     map (\<lambda>(code, cd).
            (node1, NStr (CHR ''c'' # code),
             directional_average (callIn cd) (callInCount cd)
               + directional_average (callOut cd) (callOutCount cd))) innerDict"

definition inner_sms ::
  "pynode \<Rightarrow> (string \<times> connectDict) list \<Rightarrow> (pynode \<times> pynode \<times> real) list" where
  "inner_sms node1 innerDict =
     map (\<lambda>(code, cd).
            (node1, NStr (CHR ''c'' # code),
             directional_average (smsIn cd) (smsInCount cd)
               + directional_average (smsOut cd) (smsOutCount cd))) innerDict"

text \<open>For every connection of the JSON.\<close>

definition call_contributions ::
  "(int \<times> (string \<times> connectDict) list) list \<Rightarrow> (pynode \<times> pynode \<times> real) list" where
  "call_contributions graphDict =
     concat (map (\<lambda>(cell, innerDict).
               inner_call (NStr (CHR ''m'' # str_int cell)) innerDict) graphDict)"

definition sms_contributions ::
  "(int \<times> (string \<times> connectDict) list) list \<Rightarrow> (pynode \<times> pynode \<times> real) list" where
  "sms_contributions graphDict =
     concat (map (\<lambda>(cell, innerDict).
               inner_sms (NStr (CHR ''m'' # str_int cell)) innerDict) graphDict)"

section \<open>Aggregation over the daily extracts (mi\_to\_mi.py)\<close>

text \<open>
  \<open>aggregate_dates\<close>. The node universe \<open>milanNodes\<close>:
  \<^verbatim>\<open>
  for cellId, censusBlocks in grid.items():
      if len(censusBlocks) > 1:
          milanNodes.add(int(cellId))
  \<close>
  A Python set has no fixed order; the model lists the cells in the order of the grid.
\<close>

definition milanNodes :: "(int \<times> census_section list) list \<Rightarrow> int list" where
  "milanNodes grid = map fst (filter (\<lambda>(cellId, censusBlocks). length censusBlocks > 1) grid)"

text \<open>The loops over one extract: \<open>node1 -> node2 -> w\<close>.\<close>

fun aggregate_inner :: "int list \<Rightarrow> int graph \<Rightarrow> int \<Rightarrow> (int \<times> real) list \<Rightarrow> int graph" where
  "aggregate_inner universe g node1 [] = g"
| "aggregate_inner universe g node1 ((node2, w) # rest) =
     (if node2 \<notin> set universe then aggregate_inner universe g node1 rest
      else aggregate_inner universe (add_weight g node1 node2 w) node1 rest)"

fun aggregate_extract ::
  "int list \<Rightarrow> int graph \<Rightarrow> (int \<times> (int \<times> real) list) list \<Rightarrow> int graph" where
  "aggregate_extract universe g [] = g"
| "aggregate_extract universe g ((node1, innerDict) # rest) =
     (if node1 \<notin> set universe then aggregate_extract universe g rest
      else aggregate_extract universe (aggregate_inner universe g node1 innerDict) rest)"

text \<open>The whole function: the universe's nodes first, then every extract in turn.\<close>

definition aggregate_dates ::
  "(int \<times> census_section list) list \<Rightarrow> (int \<times> (int \<times> real) list) list list \<Rightarrow> int graph" where
  "aggregate_dates grid extracts =
     fold (\<lambda>dictionary g. aggregate_extract (milanNodes grid) g dictionary) extracts
       (fold (\<lambda>node g. add_node g node) (milanNodes grid) empty_graph)"

section \<open>Node attributes: merge and hole filling\<close>

text \<open>
  \<open>for key, attr in record.items(): G.nodes[node][key] = attr\<close>, on the node's
  attribute dictionary.
\<close>

definition update_items ::
  "(string \<times> json_val) list \<Rightarrow> (string \<times> json_val) list \<Rightarrow> (string \<times> json_val) list" where
  "update_items items attrs = fold (\<lambda>(k, v). AList.update k v) items attrs"

definition set_node_attrs :: "'n graph \<Rightarrow> 'n \<Rightarrow> (string \<times> json_val) list \<Rightarrow> 'n graph" where
  "set_node_attrs g n attrs = g\<lparr>node_attrs := (node_attrs g)(n := attrs)\<rparr>"

text \<open>
  \<open>add_census_attributes\<close> (mi\_to\_mi\_blocks.py): the loop over the nodes. A node
  whose \<open>str(node)\<close> is not a key of \<open>blocksAttr\<close> raises KeyError inside the \<open>try\<close>
  and is added to \<open>missingBlocks\<close>, a set, kept here as a list without duplicates.
\<close>

fun add_census_attributes_loop ::
  "(string \<times> (string \<times> json_val) list) list \<Rightarrow> int graph \<Rightarrow> string list \<Rightarrow> int list \<Rightarrow>
   int graph \<times> string list" where
  "add_census_attributes_loop blocksAttr g missingBlocks [] = (g, missingBlocks)"
| "add_census_attributes_loop blocksAttr g missingBlocks (node # rest) =
     (case map_of blocksAttr (str_int node) of
        Some record \<Rightarrow>
          add_census_attributes_loop blocksAttr
            (set_node_attrs g node (update_items record (node_attrs g node)))
            missingBlocks rest
      | None \<Rightarrow>
          add_census_attributes_loop blocksAttr g
            (List.insert (str_int node) missingBlocks) rest)"

definition add_census_attributes ::
  "int graph \<Rightarrow> (string \<times> (string \<times> json_val) list) list \<Rightarrow> int graph \<times> string list" where
  "add_census_attributes blocksGraph blocksAttr =
     add_census_attributes_loop blocksAttr blocksGraph [] (nodes blocksGraph)"

text \<open>
  The canonical keys: those of the first node, in node order, whose attribute
  dictionary is not empty; no keys when there is none.
\<close>

definition first_keys :: "'n graph \<Rightarrow> string list" where
  "first_keys g =
     (case filter (\<lambda>n. node_attrs g n \<noteq> []) (nodes g) of
        [] \<Rightarrow> []
      | n # _ \<Rightarrow> map fst (node_attrs g n))"

text \<open>
  The body of the filling loop, on one node's attribute dictionary:
  \<^verbatim>\<open>
  if not attrs:
      for key in keys:
          blocksGraph.nodes[node][key] = None
  if blocksGraph.nodes[node]['SEZ2011'] is None:
      blocksGraph.nodes[node]['SEZ2011'] = node
  \<close>
  Reading \<open>'SEZ2011'\<close> raises KeyError when the dictionary has no such key.
  \<open>node_val\<close> is the node as an attribute value.
\<close>

definition fill_attrs ::
  "json_val \<Rightarrow> string list \<Rightarrow> (string \<times> json_val) list \<Rightarrow>
   py_error + (string \<times> json_val) list" where
  "fill_attrs node_val keys attrs =
     (let attrs1 = (if attrs = [] then fold (\<lambda>key. AList.update key JNull) keys attrs
                    else attrs)
      in case map_of attrs1 ''SEZ2011'' of
           None \<Rightarrow> Inl KeyError
         | Some v \<Rightarrow>
             Inr (if v = JNull then AList.update ''SEZ2011'' node_val attrs1 else attrs1))"

text \<open>
  The filling loop over the nodes. \<open>is_block\<close> is the guard of the loop body: every
  node in mi\_to\_mi\_blocks.py, the nodes whose \<open>str\<close> does not start with \<open>'c'\<close> in
  mi\_to\_countries\_blocks.py.
\<close>

fun fill_nodes ::
  "('n \<Rightarrow> bool) \<Rightarrow> ('n \<Rightarrow> json_val) \<Rightarrow> string list \<Rightarrow> 'n graph \<Rightarrow> 'n list \<Rightarrow>
   py_error + 'n graph" where
  "fill_nodes is_block node_val keys g [] = Inr g"
| "fill_nodes is_block node_val keys g (node # rest) =
     (if is_block node
      then (case fill_attrs (node_val node) keys (node_attrs g node) of
              Inl e \<Rightarrow> Inl e
            | Inr attrs \<Rightarrow>
                fill_nodes is_block node_val keys (set_node_attrs g node attrs) rest)
      else fill_nodes is_block node_val keys g rest)"

text \<open>
  The sanity check at the end of \<open>census_block_graph_fill_in_holes\<close>: every node has as
  many attributes as the first node.
\<close>

definition check_lengths :: "'n graph \<Rightarrow> py_error + 'n graph" where
  "check_lengths g =
     (case nodes g of
        [] \<Rightarrow> Inr g
      | n # ns \<Rightarrow>
          if list_all (\<lambda>m. length (node_attrs g m) = length (node_attrs g n)) ns
          then Inr g else Inl ValueError)"

definition census_block_graph_fill_in_holes :: "int graph \<Rightarrow> py_error + int graph" where
  "census_block_graph_fill_in_holes blocksGraph =
     (case fill_nodes (\<lambda>node. True) JInt (first_keys blocksGraph) blocksGraph
             (nodes blocksGraph) of
        Inl e \<Rightarrow> Inl e
      | Inr g \<Rightarrow> check_lengths g)"

section \<open>Block-to-country redistribution (mi\_to\_countries\_blocks.py)\<close>

text \<open>
  \<open>get_block_graph\<close>, after its file checks. The loop over the edges at
  \<open>'m' + cellFrom['cellID']\<close>, with the two sanity checks that raise ValueError.
\<close>

fun for_country_edges ::
  "pynode graph \<Rightarrow> int \<Rightarrow> string cell_section \<Rightarrow> (pynode \<times> pynode \<times> real) list \<Rightarrow>
   py_error + pynode graph" where
  "for_country_edges blocksGraph sez cellFrom [] = Inr blocksGraph"
| "for_country_edges blocksGraph sez cellFrom ((cellNodeFrom, cellNodeTo, w) # rest) =
     (if \<not> startswith (py_str cellNodeFrom) CHR ''m'' then Inl ValueError
      else if \<not> startswith (py_str cellNodeTo) CHR ''c'' then Inl ValueError
      else
        (let g1 = ensure_node blocksGraph (NStr (py_str cellNodeTo));
             weight = w * censusAreaPercentage cellFrom
         in for_country_edges (add_weight g1 (NInt sez) cellNodeTo weight) sez cellFrom rest))"

fun for_country_cellsFrom ::
  "pynode graph \<Rightarrow> pynode graph \<Rightarrow> int \<Rightarrow> string cell_section list \<Rightarrow>
   py_error + pynode graph" where
  "for_country_cellsFrom blocksGraph cellsGraph sez [] = Inr blocksGraph"
| "for_country_cellsFrom blocksGraph cellsGraph sez (cellFrom # rest) =
     (case for_country_edges blocksGraph sez cellFrom
             (edges_at cellsGraph (NStr (CHR ''m'' # cellID cellFrom))) of
        Inl e \<Rightarrow> Inl e
      | Inr g \<Rightarrow> for_country_cellsFrom g cellsGraph sez rest)"

fun for_blocksCellsMap ::
  "pynode graph \<Rightarrow> pynode graph \<Rightarrow> (int \<times> string cell_section list) list \<Rightarrow>
   py_error + pynode graph" where
  "for_blocksCellsMap blocksGraph cellsGraph [] = Inr blocksGraph"
| "for_blocksCellsMap blocksGraph cellsGraph ((sez, cellsFrom) # rest) =
     (case for_country_cellsFrom (ensure_node blocksGraph (NInt sez)) cellsGraph sez cellsFrom of
        Inl e \<Rightarrow> Inl e
      | Inr g \<Rightarrow> for_blocksCellsMap g cellsGraph rest)"

text \<open>
  The loop that attaches attributes. A country node reads
  \<open>countryCodesMap[countryCode]\<close> outside any \<open>try\<close>; a block node reads
  \<open>censusAttributes[str(node)]\<close> inside one, and \<open>keys\<close> is taken from the first record
  found while \<open>keys\<close> is still empty. A country's name is a string or null.
\<close>

fun annotate_nodes ::
  "(string \<times> (string \<times> json_val) list) list \<Rightarrow> (string \<times> string option) list \<Rightarrow>
   string list \<Rightarrow> pynode graph \<Rightarrow> pynode list \<Rightarrow> py_error + (pynode graph \<times> string list)" where
  "annotate_nodes censusAttributes countryCodesMap keys g [] = Inr (g, keys)"
| "annotate_nodes censusAttributes countryCodesMap keys g (node # rest) =
     (if startswith (py_str node) CHR ''c'' then
        (let countryCode = tl (py_str node)
         in case map_of countryCodesMap countryCode of
              None \<Rightarrow> Inl KeyError
            | Some countryName \<Rightarrow>
                annotate_nodes censusAttributes countryCodesMap keys
                  (set_node_attrs g node
                     (AList.update ''CountryName''
                        (case countryName of None \<Rightarrow> JNull | Some name \<Rightarrow> JStr name)
                        (AList.update ''CountryCode'' (JStr countryCode) (node_attrs g node))))
                  rest)
      else
        (case map_of censusAttributes (py_str node) of
           None \<Rightarrow> annotate_nodes censusAttributes countryCodesMap keys g rest
         | Some record \<Rightarrow>
             annotate_nodes censusAttributes countryCodesMap
               (if keys = [] then map fst record else keys)
               (set_node_attrs g node (update_items record (node_attrs g node)))
               rest))"

fun node_value :: "pynode \<Rightarrow> json_val" where
  "node_value (NInt i) = JInt i"
| "node_value (NStr s) = JStr s"

definition get_block_graph ::
  "(int \<times> string cell_section list) list \<Rightarrow> pynode graph \<Rightarrow>
   (string \<times> (string \<times> json_val) list) list \<Rightarrow> (string \<times> string option) list \<Rightarrow>
   py_error + pynode graph" where
  "get_block_graph blocksCellsMap cellsGraph censusAttributes countryCodesMap =
     (case for_blocksCellsMap empty_graph cellsGraph blocksCellsMap of
        Inl e \<Rightarrow> Inl e
      | Inr g1 \<Rightarrow>
          (case annotate_nodes censusAttributes countryCodesMap [] g1 (nodes g1) of
             Inl e \<Rightarrow> Inl e
           | Inr (g2, keys) \<Rightarrow>
               fill_nodes (\<lambda>node. \<not> startswith (py_str node) CHR ''c'') node_value keys g2
                 (nodes g2)))"

text \<open>What the redistribution loops of \<open>get_block_graph\<close> add, as a list.\<close>

definition country_edge_contributions ::
  "int \<Rightarrow> string cell_section \<Rightarrow> (pynode \<times> pynode \<times> real) list \<Rightarrow>
   (pynode \<times> pynode \<times> real) list" where
  "country_edge_contributions sez cellFrom es =
     map (\<lambda>(cellNodeFrom, cellNodeTo, w).
            (NInt sez, cellNodeTo, w * censusAreaPercentage cellFrom)) es"

definition country_cellsFrom_contributions ::
  "pynode graph \<Rightarrow> int \<Rightarrow> string cell_section list \<Rightarrow> (pynode \<times> pynode \<times> real) list" where
  "country_cellsFrom_contributions cellsGraph sez cellsFrom =
     concat (map (\<lambda>cellFrom. country_edge_contributions sez cellFrom
                    (edges_at cellsGraph (NStr (CHR ''m'' # cellID cellFrom)))) cellsFrom)"

definition country_contributions ::
  "(int \<times> string cell_section list) list \<Rightarrow> pynode graph \<Rightarrow> (pynode \<times> pynode \<times> real) list" where
  "country_contributions blocksCellsMap cellsGraph =
     concat (map (\<lambda>(sez, cellsFrom).
               country_cellsFrom_contributions cellsGraph sez cellsFrom) blocksCellsMap)"

text \<open>
  The same list with the product the specification states: the edge weight times the
  source-side percentage (\<open>milanAreaPercentage\<close>, intersection area over the cell's
  area).
\<close>

definition stated_country_contributions ::
  "(int \<times> string cell_section list) list \<Rightarrow> pynode graph \<Rightarrow> (pynode \<times> pynode \<times> real) list" where
  "stated_country_contributions blocksCellsMap cellsGraph =
     concat (map (\<lambda>(sez, cellsFrom).
       concat (map (\<lambda>cellFrom.
         map (\<lambda>(cellNodeFrom, cellNodeTo, w).
                (NInt sez, cellNodeTo, w * milanAreaPercentage cellFrom))
             (edges_at cellsGraph (NStr (CHR ''m'' # cellID cellFrom))))
         cellsFrom))
       blocksCellsMap)"

text \<open>The weight a run leaves between two nodes; \<open>None\<close> when the run raised or left no edge.\<close>

definition result_weight :: "py_error + 'n graph \<Rightarrow> 'n \<Rightarrow> 'n \<Rightarrow> real option" where
  "result_weight r a b = (case r of Inl e \<Rightarrow> None | Inr g \<Rightarrow> edge_weight g a b)"

section \<open>Concrete inputs\<close>

text \<open>
  Two cells, 10 and 20, joined by one edge of weight 100. Half of cell 10 lies in block
  1 and makes up a quarter of that block; half of cell 20 lies in block 2 and makes up a
  fifth of that block.
\<close>

definition ex_cellsGraph :: "int graph" where
  "ex_cellsGraph = add_edge empty_graph 10 20 100"

definition ex_cellsMap :: "(int \<times> census_section list) list" where
  "ex_cellsMap =
     [(10, [\<lparr>censusAreaPercentage = 1 / 4, milanAreaPercentage = 1 / 2, SEZ2011 = 1\<rparr>]),
      (20, [\<lparr>censusAreaPercentage = 1 / 5, milanAreaPercentage = 1 / 2, SEZ2011 = 2\<rparr>])]"

definition ex_blocksMap :: "(int \<times> int cell_section list) list" where
  "ex_blocksMap = milan_grid_census_blocks_map_reverse ex_cellsMap"

text \<open>
  Two cells, each with one entry, for two blocks \<open>X\<close> and \<open>Y\<close> (which may be the same
  block). In \<open>full_cellsMap\<close> the percentage the redistribution reads
  (\<open>censusAreaPercentage\<close>) is 1 and the cell-side percentage is left open.
\<close>

definition full_cellsMap ::
  "int \<Rightarrow> int \<Rightarrow> int \<Rightarrow> int \<Rightarrow> real \<Rightarrow> real \<Rightarrow> (int \<times> census_section list) list" where
  "full_cellsMap A B X Y ma mb =
     [(A, [\<lparr>censusAreaPercentage = 1, milanAreaPercentage = ma, SEZ2011 = X\<rparr>]),
      (B, [\<lparr>censusAreaPercentage = 1, milanAreaPercentage = mb, SEZ2011 = Y\<rparr>])]"

text \<open>
  Cells 10 and 20 lie wholly (100 percent of their own area) in blocks 1 and 2, and
  each makes up half of its block.
\<close>

definition covered_cellsMap :: "(int \<times> census_section list) list" where
  "covered_cellsMap =
     [(10, [\<lparr>censusAreaPercentage = 1 / 2, milanAreaPercentage = 1, SEZ2011 = 1\<rparr>]),
      (20, [\<lparr>censusAreaPercentage = 1 / 2, milanAreaPercentage = 1, SEZ2011 = 2\<rparr>])]"

text \<open>A cell's list with exactly one overlapping census block.\<close>

definition one_block :: "census_section list" where
  "one_block = [\<lparr>censusAreaPercentage = 1 / 2, milanAreaPercentage = 1 / 2, SEZ2011 = 7\<rparr>]"

text \<open>
  A cell graph with the single edge between cell 10 and country code 39, of weight
  100; half of cell 10 lies in block 1 and makes up a quarter of it; block 1 has a
  census record.
\<close>

definition ex_countryGraph :: "pynode graph" where
  "ex_countryGraph = add_edge empty_graph (NStr ''m10'') (NStr ''c39'') 100"

definition ex_blocksCellsMap :: "(int \<times> string cell_section list) list" where
  "ex_blocksCellsMap =
     [(1, [\<lparr>censusAreaPercentage = 1 / 4, milanAreaPercentage = 1 / 2, SEZ2011 = 1,
            cellID = ''10''\<rparr>])]"

definition ex_censusAttributes :: "(string \<times> (string \<times> json_val) list) list" where
  "ex_censusAttributes = [(''1'', [(''SEZ2011'', JInt 1), (''P1'', JInt 250)])]"


text \<open>A block graph with the nodes 1 and 2 and no attributes yet.\<close>

definition ex_two_blocks :: "int graph" where
  "ex_two_blocks = add_node (add_node empty_graph 1) 2"

text \<open>
  Census records for blocks 1 and 2 with different fields (as many fields each).
\<close>

definition ex_mixedAttributes :: "(string \<times> (string \<times> json_val) list) list" where
  "ex_mixedAttributes =
     [(''1'', [(''SEZ2011'', JInt 1), (''P1'', JInt 250)]),
      (''2'', [(''SEZ2011'', JInt 2), (''E1'', JInt 7)])]"

text \<open>The attribute keys a run leaves on a node; \<open>None\<close> when the run raised.\<close>

definition result_keys :: "py_error + 'n graph \<Rightarrow> 'n \<Rightarrow> string list option" where
  "result_keys r n = (case r of Inl e \<Rightarrow> None | Inr g \<Rightarrow> Some (map fst (node_attrs g n)))"

section \<open>Properties of the overlap mapper\<close>





lemma cell_sections_skip:
  "\<not> overlaps G mp (snd cp) \<Longrightarrow>
   cell_sections G mp (pre @ cp # post) = cell_sections G mp (pre @ post)"
  by (induction pre) (simp_all cong: sum.case_cong)

text \<open>
  Claim C10. The mapper writes an entry for a pair exactly when \<open>overlaps\<close> holds.
  For a geometry whose \<open>overlaps\<close> is false whenever one polygon contains the other
  (as shapely's is), a cell contained in a census polygon, or containing it, gets no
  entry for that polygon: the cell's list, and the grid written for the cell, are what
  they would be if the census polygon were not in the input at all.
\<close>

theorem contained_pair_leaves_no_record:
  assumes "\<And>p q. contains p q \<or> contains q p \<Longrightarrow> \<not> overlaps G p q"
    and "contains mp (snd cp) \<or> contains (snd cp) mp"
  shows "cell_sections G mp (pre @ cp # post) = cell_sections G mp (pre @ post)
       \<and> create_sezioni_censimento_millan_grid_map G (pre @ cp # post) [(c, mp)]
           = create_sezioni_censimento_millan_grid_map G (pre @ post) [(c, mp)]"
proof -
  have "\<not> overlaps G mp (snd cp)" using assms by blast
  then show ?thesis
    by (simp add: cell_sections_skip create_sezioni_censimento_millan_grid_map_def
        cong: sum.case_cong)
qed

text \<open>
  Witness for C10, on rectangles: the cell \<open>(1, 1, 2, 2)\<close> inside the census polygon
  \<open>(0, 0, 10, 10)\<close>, and the census polygon \<open>(1, 1, 2, 2)\<close> inside the cell
  \<open>(0, 0, 10, 10)\<close>; both cells get an empty list.
\<close>

theorem contained_pair_leaves_no_record_witness:
  "rect_contains (0, 0, 10, 10) (1, 1, 2, 2)
   \<and> create_sezioni_censimento_millan_grid_map rect_geometry [(7, (0, 0, 10, 10))]
        [(5, (1, 1, 2, 2))] = Inr [(5, [])]
   \<and> create_sezioni_censimento_millan_grid_map rect_geometry [(7, (1, 1, 2, 2))]
        [(5, (0, 0, 10, 10))] = Inr [(5, [])]"
proof -
  have contract: "\<And>p q. rect_contains p q \<or> rect_contains q p \<Longrightarrow> \<not> overlaps rect_geometry p q"
    by (auto simp: rect_geometry_def rect_overlaps_def)
  have a: "rect_contains (0, 0, 10, 10) (1, 1, 2, 2)" by simp
  have h1: "rect_contains (1, 1, 2, 2) (snd (7 :: int, (0, 0, 10, 10) :: rect))
          \<or> rect_contains (snd (7 :: int, (0, 0, 10, 10) :: rect)) (1, 1, 2, 2)" by simp
  have h2: "rect_contains (0, 0, 10, 10) (snd (7 :: int, (1, 1, 2, 2) :: rect))
          \<or> rect_contains (snd (7 :: int, (1, 1, 2, 2) :: rect)) (0, 0, 10, 10)" by simp
  from contained_pair_leaves_no_record [of rect_contains rect_geometry, OF contract h1, of "[]" "[]" 5]
    contained_pair_leaves_no_record [of rect_contains rect_geometry, OF contract h2, of "[]" "[]" 5]
    a
  show ?thesis
    by (simp add: create_sezioni_censimento_millan_grid_map_def)
qed


section \<open>Properties of the graph operations\<close>

lemma wf_empty: "wf_graph empty_graph"
  by (simp add: wf_graph_def empty_graph_def)

lemma wf_sym: "wf_graph g \<Longrightarrow> map_of (adj g a) b = map_of (adj g b) a"
  by (simp add: wf_graph_def)

lemma wf_non_node: "wf_graph g \<Longrightarrow> \<not> has_node g a \<Longrightarrow> adj g a = []"
  by (simp add: wf_graph_def)

lemma wf_non_node_nbr: "wf_graph g \<Longrightarrow> \<not> has_node g a \<Longrightarrow> map_of (adj g b) a = None"
  using wf_sym [of g b a] wf_non_node [of g a] by simp

lemma add_node_adj: "wf_graph g \<Longrightarrow> adj (add_node g n) = adj g"
  by (auto simp: add_node_def fun_eq_iff dest: wf_non_node)

lemma add_node_has: "has_node (add_node g n) m = (m = n \<or> has_node g m)"
  by (auto simp: add_node_def has_node_def)

lemma add_node_wf: "wf_graph g \<Longrightarrow> wf_graph (add_node g n)"
  unfolding wf_graph_def [of "add_node g n"]
  by (auto simp: add_node_adj add_node_has wf_sym wf_non_node)

lemma wf_edge_weight: "wf_graph g \<Longrightarrow> edge_weight g u v = map_of (adj g u) v"
  by (auto simp: edge_weight_def dest: wf_non_node)

lemma set_weight_has: "has_node (set_weight g u v w) m = has_node g m"
  by (simp add: set_weight_def has_node_def)

lemma set_weight_lookup:
  "wf_graph g \<Longrightarrow> map_of (adj (set_weight g u v w) a) b =
     (if (a = u \<and> b = v) \<or> (a = v \<and> b = u) then Some w else map_of (adj g a) b)"
  by (auto simp: set_weight_def update_conv' wf_sym)

lemma set_weight_wf:
  assumes "wf_graph g" "has_node g u" "has_node g v"
  shows "wf_graph (set_weight g u v w)"
proof -
  have "adj (set_weight g u v w) a = []" if "\<not> has_node g a" for a
    using that assms by (auto simp: set_weight_def dest: wf_non_node)
  then show ?thesis
    unfolding wf_graph_def [of "set_weight g u v w"]
    using assms(1) by (auto simp: set_weight_lookup set_weight_has wf_sym)
qed

lemma add_weight_wf:
  assumes "wf_graph g"
  shows "wf_graph (add_weight g u v w)"
proof (cases "edge_weight g u v")
  case None
  then show ?thesis
    using assms
    by (simp add: add_weight_def add_edge_def set_weight_wf add_node_wf add_node_has)
next
  case (Some old)
  then have "map_of (adj g u) v = Some old" "map_of (adj g v) u = Some old"
    using assms wf_edge_weight [OF assms] wf_sym [OF assms, of v u] by simp_all
  then have "has_node g u" "has_node g v"
    using assms wf_non_node [OF assms] by fastforce+
  then show ?thesis
    using assms Some by (simp add: add_weight_def set_weight_wf)
qed

lemma add_weight_adj:
  assumes "wf_graph g"
  shows "map_of (adj (add_weight g u v w) a) b =
           (if (a = u \<and> b = v) \<or> (a = v \<and> b = u)
            then Some (wt g u v + w) else map_of (adj g a) b)"
proof (cases "edge_weight g u v")
  case None
  have wf2: "wf_graph (add_node (add_node g u) v)" by (simp add: add_node_wf assms)
  have a2: "adj (add_node (add_node g u) v) = adj g"
    by (simp add: add_node_adj add_node_wf assms)
  have "add_weight g u v w = set_weight (add_node (add_node g u) v) u v w"
    using None by (simp add: add_weight_def add_edge_def)
  moreover have "wt g u v = 0" using None by (simp add: wt_def)
  ultimately show ?thesis
    by (simp only: set_weight_lookup [OF wf2] a2 add_0)
next
  case (Some old)
  have "add_weight g u v w = set_weight g u v (old + w)"
    using Some by (simp add: add_weight_def)
  moreover have "wt g u v = old" using Some by (simp add: wt_def)
  ultimately show ?thesis
    by (simp only: set_weight_lookup [OF assms])
qed

lemma wf_wt: "wf_graph g \<Longrightarrow> wt g a b = (case map_of (adj g a) b of Some w \<Rightarrow> w | None \<Rightarrow> 0)"
  by (simp add: wt_def wf_edge_weight)

lemma wf_wt_sym: "wf_graph g \<Longrightarrow> wt g a b = wt g b a"
  by (simp add: wf_wt wf_sym)

lemma add_weight_wt:
  assumes "wf_graph g"
  shows "wt (add_weight g u v w) a b =
           wt g a b + (if (u = a \<and> v = b) \<or> (u = b \<and> v = a) then w else 0)"
proof (cases "(u = a \<and> v = b) \<or> (u = b \<and> v = a)")
  case True
  then have "wt g u v = wt g a b"
    using wf_wt_sym [OF assms, of a b] by auto
  moreover have "map_of (adj (add_weight g u v w) a) b = Some (wt g u v + w)"
    using True by (subst add_weight_adj [OF assms]) auto
  ultimately show ?thesis
    using True by (simp add: wf_wt [OF add_weight_wf [OF assms]])
next
  case False
  then have "map_of (adj (add_weight g u v w) a) b = map_of (adj g a) b"
    by (subst add_weight_adj [OF assms]) auto
  then have "wt (add_weight g u v w) a b = wt g a b"
    by (simp add: wf_wt [OF add_weight_wf [OF assms]] wf_wt [OF assms])
  then show ?thesis
    using False by auto
qed

lemma add_node_wt: "wf_graph g \<Longrightarrow> wt (add_node g n) a b = wt g a b"
  by (simp add: wt_def wf_edge_weight add_node_wf add_node_adj)

lemma halve_weights_wf: "wf_graph g \<Longrightarrow> wf_graph (halve_weights g)"
  by (simp add: wf_graph_def halve_weights_def has_node_def map_of_map)

lemma halve_weights_wt: "wf_graph g \<Longrightarrow> wt (halve_weights g) a b = wt g a b / 2"
  by (simp add: wt_def wf_edge_weight halve_weights_wf)
    (simp add: halve_weights_def map_of_map split: option.splits)


section \<open>Properties of the block-to-block redistribution\<close>

lemma landed_Nil: "landed a b [] = 0"
  by (simp add: landed_def)

lemma landed_Cons:
  "landed a b ((u, v, w) # cs) =
     (if (u = a \<and> v = b) \<or> (u = b \<and> v = a) then w else 0) + landed a b cs"
  by (simp add: landed_def)

lemma landed_append: "landed a b (xs @ ys) = landed a b xs + landed a b ys"
  by (simp add: landed_def)

lemma for_blockTo_sum:
  "wf_graph g \<Longrightarrow>
   wf_graph (for_blockTo g sez w cellFrom blocks) \<and>
   wt (for_blockTo g sez w cellFrom blocks) a b =
     wt g a b + landed a b (blockTo_contributions sez w cellFrom blocks)"
proof (induction blocks arbitrary: g)
  case Nil
  then show ?case by (simp add: blockTo_contributions_def landed_Nil)
next
  case (Cons blockTo rest)
  let ?g1 = "if \<not> has_node g (SEZ2011 blockTo) then add_node g (SEZ2011 blockTo) else g"
  let ?wgt = "w * censusAreaPercentage cellFrom * censusAreaPercentage blockTo"
  have wf1: "wf_graph ?g1" and wt1: "wt ?g1 a b = wt g a b"
    using Cons.prems by (simp_all add: add_node_wf add_node_wt)
  have wf2: "wf_graph (add_weight ?g1 sez (SEZ2011 blockTo) ?wgt)"
    by (rule add_weight_wf [OF wf1])
  have step: "for_blockTo g sez w cellFrom (blockTo # rest) =
                for_blockTo (add_weight ?g1 sez (SEZ2011 blockTo) ?wgt) sez w cellFrom rest"
    by (simp add: Let_def)
  show ?case
    unfolding step
    using Cons.IH [OF wf2] add_weight_wt [OF wf1, of sez "SEZ2011 blockTo" ?wgt a b] wt1
    by (simp add: blockTo_contributions_def landed_Cons)
qed

lemma for_cell_edges_sum:
  "wf_graph g \<Longrightarrow> for_cell_edges g cellsMap sez cellFrom es = Inr g' \<Longrightarrow>
   wf_graph g' \<and>
   wt g' a b = wt g a b + landed a b (cell_edge_contributions cellsMap sez cellFrom es)"
proof (induction es arbitrary: g)
  case Nil
  then show ?case by (simp add: cell_edge_contributions_def landed_Nil)
next
  case (Cons e rest)
  obtain cellNodeFrom cellNodeTo w where e: "e = (cellNodeFrom, cellNodeTo, w)"
    by (cases e) auto
  from Cons.prems(2) e obtain blocks where
    m: "map_of cellsMap cellNodeTo = Some blocks" and
    r: "for_cell_edges (for_blockTo g sez w cellFrom blocks) cellsMap sez cellFrom rest = Inr g'"
    by (auto split: option.splits)
  note fb = for_blockTo_sum [OF Cons.prems(1), of sez w cellFrom blocks a b]
  from Cons.IH [OF conjunct1 [OF fb] r] fb show ?case
    by (simp add: e m cell_edge_contributions_def landed_append)
qed

lemma for_cellsFrom_sum:
  "wf_graph g \<Longrightarrow> for_cellsFrom g cellsGraph cellsMap sez cellsFrom = Inr g' \<Longrightarrow>
   wf_graph g' \<and>
   wt g' a b = wt g a b + landed a b (cellsFrom_contributions cellsGraph cellsMap sez cellsFrom)"
proof (induction cellsFrom arbitrary: g)
  case Nil
  then show ?case by (simp add: cellsFrom_contributions_def landed_Nil)
next
  case (Cons cellFrom rest)
  from Cons.prems(2) obtain g1 where
    e: "for_cell_edges g cellsMap sez cellFrom (edges_at cellsGraph (cellID cellFrom)) = Inr g1" and
    r: "for_cellsFrom g1 cellsGraph cellsMap sez rest = Inr g'"
    by (auto split: sum.splits)
  note fe = for_cell_edges_sum [OF Cons.prems(1) e, of a b]
  from Cons.IH [OF conjunct1 [OF fe] r] fe show ?case
    by (simp add: cellsFrom_contributions_def landed_append)
qed

lemma for_blocksMap_sum:
  "wf_graph g \<Longrightarrow> for_blocksMap g cellsGraph cellsMap blocksMap = Inr g' \<Longrightarrow>
   wf_graph g' \<and>
   wt g' a b = wt g a b + landed a b (block_contributions blocksMap cellsGraph cellsMap)"
proof (induction blocksMap arbitrary: g)
  case Nil
  then show ?case by (simp add: block_contributions_def landed_Nil)
next
  case (Cons item rest)
  obtain sez cellsFrom where item: "item = (sez, cellsFrom)" by (cases item) auto
  let ?g1 = "if \<not> has_node g sez then add_node g sez else g"
  have wf1: "wf_graph ?g1" and wt1: "wt ?g1 a b = wt g a b"
    using Cons.prems(1) by (simp_all add: add_node_wf add_node_wt)
  from Cons.prems(2) item obtain g2 where
    c: "for_cellsFrom ?g1 cellsGraph cellsMap sez cellsFrom = Inr g2" and
    r: "for_blocksMap g2 cellsGraph cellsMap rest = Inr g'"
    by (auto simp: Let_def split: sum.splits if_splits)
  note fc = for_cellsFrom_sum [OF wf1 c, of a b]
  from Cons.IH [OF conjunct1 [OF fc] r] fc wt1 show ?case
    by (simp add: item block_contributions_def landed_append)
qed

lemma wt_empty: "wt empty_graph a b = 0"
  by (simp add: wt_def edge_weight_def has_node_def empty_graph_def)


lemmas graph_defs = add_edge_def set_weight_def add_node_def has_node_def empty_graph_def
  add_weight_def edge_weight_def halve_weights_def wt_def

lemma ex_edges:
  "edges_at ex_cellsGraph 10 = [(10, 20, 100)]"
  "edges_at ex_cellsGraph 20 = [(20, 10, 100)]"
  by (simp_all add: ex_cellsGraph_def edges_at_def graph_defs)

lemma ex_blocksMap_eq:
  "ex_blocksMap =
     [(1, [\<lparr>censusAreaPercentage = 1 / 4, milanAreaPercentage = 1 / 2, SEZ2011 = 1,
            cellID = 10\<rparr>]),
      (2, [\<lparr>censusAreaPercentage = 1 / 5, milanAreaPercentage = 1 / 2, SEZ2011 = 2,
            cellID = 20\<rparr>])]"
  by (simp add: ex_blocksMap_def ex_cellsMap_def milan_grid_census_blocks_map_reverse_def)

lemma ex_block_run:
  "\<exists>g. create_census_blocks_graph ex_blocksMap ex_cellsGraph ex_cellsMap = Inr g
       \<and> edge_weight g 1 2 = Some 5"
  by (simp add: create_census_blocks_graph_def ex_blocksMap_eq ex_edges ex_cellsMap_def
      graph_defs Let_def)

text \<open>
  Claim C1, as the code has it. The weight \<open>create_census_blocks_graph\<close> leaves between
  two blocks is half the sum of the contributions that land on that pair, and each
  contribution is the cell edge's weight times the \<open>censusAreaPercentage\<close> of the
  from-cell's entry times the \<open>censusAreaPercentage\<close> of the to-cell's entry: the
  block-side percentage (intersection area over the block's area) on both sides. The
  cell-side percentage \<open>milanAreaPercentage\<close> is not read.
\<close>

theorem block_weight_half_of_census_products:
  assumes "create_census_blocks_graph blocksMap cellsGraph cellsMap = Inr g"
  shows "wt g a b = landed a b (block_contributions blocksMap cellsGraph cellsMap) / 2"
proof -
  from assms obtain g0 where
    l: "for_blocksMap empty_graph cellsGraph cellsMap blocksMap = Inr g0" and
    g: "g = halve_weights g0"
    by (auto simp: create_census_blocks_graph_def split: sum.splits)
  from for_blocksMap_sum [OF wf_empty l, of a b] show ?thesis
    by (simp add: g halve_weights_wt wt_empty)
qed

text \<open>
  Witness for C1: on the two-cell input the run returns a graph, the two contributions
  \<open>100 * 1/4 * 1/5\<close> land on the pair of blocks 1 and 2, and the weight is their half
  sum, 5.
\<close>

theorem block_weight_half_of_census_products_witness:
  "\<exists>g. create_census_blocks_graph ex_blocksMap ex_cellsGraph ex_cellsMap = Inr g
       \<and> wt g 1 2 = 5
       \<and> block_contributions ex_blocksMap ex_cellsGraph ex_cellsMap = [(1, 2, 5), (2, 1, 5)]"
proof -
  obtain g where g: "create_census_blocks_graph ex_blocksMap ex_cellsGraph ex_cellsMap = Inr g"
    using ex_block_run by blast
  have c: "block_contributions ex_blocksMap ex_cellsGraph ex_cellsMap = [(1, 2, 5), (2, 1, 5)]"
    by (simp add: block_contributions_def cellsFrom_contributions_def
        cell_edge_contributions_def blockTo_contributions_def ex_blocksMap_eq ex_edges
        ex_cellsMap_def)
  have "wt g 1 2 = 5"
    using block_weight_half_of_census_products [OF g, of 1 2]
    by (simp add: c landed_def)
  with g c show ?thesis by blast
qed

text \<open>
  Counterexample to C1 as stated: on the same input the code leaves weight 5 between
  blocks 1 and 2, while the stated product (cell-side percentage of the from-cell,
  block-side percentage of the to-cell) would give \<open>(100 * 1/2 * 1/5 + 100 * 1/2 * 1/4) / 2\<close>.
\<close>

theorem stated_block_product_counterexample:
  "result_weight (create_census_blocks_graph ex_blocksMap ex_cellsGraph ex_cellsMap) 1 2
     = Some 5
   \<and> landed 1 2 (stated_block_contributions ex_blocksMap ex_cellsGraph ex_cellsMap) / 2
     = 45 / 4
   \<and> result_weight (create_census_blocks_graph ex_blocksMap ex_cellsGraph ex_cellsMap) 1 2
     \<noteq> Some (landed 1 2
           (stated_block_contributions ex_blocksMap ex_cellsGraph ex_cellsMap) / 2)"
proof -
  have s: "landed 1 2 (stated_block_contributions ex_blocksMap ex_cellsGraph ex_cellsMap) / 2
             = 45 / 4"
    by (simp add: stated_block_contributions_def ex_blocksMap_eq ex_edges ex_cellsMap_def
        landed_def)
  have r: "result_weight
             (create_census_blocks_graph ex_blocksMap ex_cellsGraph ex_cellsMap) 1 2 = Some 5"
    using ex_block_run by (auto simp: result_weight_def)
  show ?thesis unfolding s r by simp
qed

lemma one_edge_at:
  "A \<noteq> B \<Longrightarrow> edges_at (add_edge empty_graph A B W) A = [(A, B, W)]"
  "A \<noteq> B \<Longrightarrow> edges_at (add_edge empty_graph A B W) B = [(B, A, W)]"
  by (simp_all add: edges_at_def graph_defs)

lemma conservation_aux:
  assumes "A \<noteq> B" "edges_at cg A = [(A, B, W)]" "edges_at cg B = [(B, A, W)]"
  shows "\<exists>g0. for_blocksMap empty_graph cg
                 (full_cellsMap A B X Y ma mb)
                 (milan_grid_census_blocks_map_reverse (full_cellsMap A B X Y ma mb)) = Inr g0
            \<and> (\<forall>a b. edge_weight g0 a b =
                 (if (a = X \<and> b = Y) \<or> (a = Y \<and> b = X) then Some (W + W) else None))
            \<and> create_census_blocks_graph
                 (milan_grid_census_blocks_map_reverse (full_cellsMap A B X Y ma mb))
                 cg (full_cellsMap A B X Y ma mb) = Inr (halve_weights g0)
            \<and> (\<forall>a b. edge_weight (halve_weights g0) a b =
                 (if (a = X \<and> b = Y) \<or> (a = Y \<and> b = X) then Some W else None))"
proof (cases "X = Y")
  case True
  have ne: "B \<noteq> A" using assms(1) by simp
  show ?thesis
    using True ne
    by (simp add: create_census_blocks_graph_def full_cellsMap_def
        milan_grid_census_blocks_map_reverse_def assms graph_defs Let_def)
next
  case False
  have ne: "B \<noteq> A" using assms(1) by simp
  show ?thesis
    using False ne
    by (simp add: create_census_blocks_graph_def full_cellsMap_def
        milan_grid_census_blocks_map_reverse_def assms graph_defs Let_def)
qed

text \<open>
  Claim C2, as the code has it. The source graph has the single edge \<open>{A, B}\<close> of
  weight \<open>W\<close>; cell \<open>A\<close> has one entry, for block \<open>X\<close>, and cell \<open>B\<close> one entry, for
  block \<open>Y\<close>, both with \<open>censusAreaPercentage = 1\<close> (the percentage the redistribution
  reads); the block-to-cell map is the reverse of that cell-to-block map. Then the
  loops return a graph \<open>g0\<close> whose only edge is \<open>{X, Y}\<close> with the two contributions
  summed, \<open>W + W\<close>, one from each end of the source edge; the function returns
  \<open>g0\<close> with its weights halved once; and the returned graph has exactly one edge,
  \<open>{X, Y}\<close>, of weight \<open>W\<close>.
\<close>

theorem single_edge_weight_conserved:
  assumes "A \<noteq> B"
  shows "\<exists>g0. for_blocksMap empty_graph (add_edge empty_graph A B W)
                 (full_cellsMap A B X Y ma mb)
                 (milan_grid_census_blocks_map_reverse (full_cellsMap A B X Y ma mb)) = Inr g0
            \<and> (\<forall>a b. edge_weight g0 a b =
                 (if (a = X \<and> b = Y) \<or> (a = Y \<and> b = X) then Some (W + W) else None))
            \<and> create_census_blocks_graph
                 (milan_grid_census_blocks_map_reverse (full_cellsMap A B X Y ma mb))
                 (add_edge empty_graph A B W) (full_cellsMap A B X Y ma mb)
                = Inr (halve_weights g0)
            \<and> (\<forall>a b. edge_weight (halve_weights g0) a b =
                 (if (a = X \<and> b = Y) \<or> (a = Y \<and> b = X) then Some W else None))"
  by (rule conservation_aux [OF assms one_edge_at [OF assms]])

text \<open>Witness for C2: cells 10 and 20, blocks 1 and 2, weight 100.\<close>

theorem single_edge_weight_conserved_witness:
  "(10 :: int) \<noteq> 20
   \<and> result_weight
       (create_census_blocks_graph
          (milan_grid_census_blocks_map_reverse (full_cellsMap 10 20 1 2 (1 / 2) (1 / 3)))
          (add_edge empty_graph 10 20 100) (full_cellsMap 10 20 1 2 (1 / 2) (1 / 3))) 1 2
     = Some 100"
proof -
  have h: "(10 :: int) \<noteq> 20" by simp
  from single_edge_weight_conserved [OF h, of 100 1 2 "1 / 2" "1 / 3"] h
  show ?thesis by (auto simp: result_weight_def)
qed

text \<open>
  Counterexample to C2 as stated: cells 10 and 20 are each covered 100 percent by one
  block (\<open>milanAreaPercentage = 1\<close>) and joined by one edge of weight 100, yet the
  returned weight between the two blocks is 25, because each cell is only half of its
  block.
\<close>

theorem covered_cells_weight_counterexample:
  "result_weight
     (create_census_blocks_graph (milan_grid_census_blocks_map_reverse covered_cellsMap)
        ex_cellsGraph covered_cellsMap) 1 2 = Some 25
   \<and> result_weight
       (create_census_blocks_graph (milan_grid_census_blocks_map_reverse covered_cellsMap)
          ex_cellsGraph covered_cellsMap) 1 2 \<noteq> Some 100
   \<and> map (\<lambda>(c, ss). (c, map milanAreaPercentage ss)) covered_cellsMap
       = [(10, [1]), (20, [1])]"
  by (simp add: result_weight_def create_census_blocks_graph_def covered_cellsMap_def
      milan_grid_census_blocks_map_reverse_def ex_edges graph_defs Let_def)

section \<open>Properties of the record validation\<close>

lemma raise_test_never_true: "\<not> (\<not> py_eq v (PInt 0) \<and> py_eq v (PBool False))"
  by (cases v) auto

text \<open>
  Claim C4 fails on the code. The test before each \<open>raise\<close>,
  \<open>tokens[i] != 0 and tokens[i] == False\<close>, is never true (\<open>False == 0\<close> in Python),
  so a line of 8 tokens is returned whatever its fields hold: a field that does not
  parse is returned as \<open>False\<close>.
\<close>

theorem validate_never_rejects_a_field:
  "validate int_of float_of [t0, t1, t2, t3, t4, t5, t6, t7] =
     Inr [is_int int_of t0, PStr t1, is_int int_of t2, is_float float_of t3,
          is_float float_of t4, is_float float_of t5, is_float float_of t6,
          is_float float_of t7]
   \<and> is_int (\<lambda>s. None) ''abc'' = PBool False"
  by (simp add: validate_def raise_test_never_true Let_def is_int_def eval_nat_numeral)

section \<open>Properties of the aggregation\<close>

text \<open>
  Claim C5 fails on the code. Cells 1 and 2 each have one census-block entry in the
  cell-to-block map, yet neither is in the node universe (the test is
  \<open>len(censusBlocks) > 1\<close>), no node is added for them, and the extract entry between
  them is discarded.
\<close>

theorem single_block_cells_excluded:
  "milanNodes [(1, one_block), (2, one_block)] = []
   \<and> nodes (aggregate_dates [(1, one_block), (2, one_block)] [[(1, [(2, 5)])]]) = []
   \<and> edge_weight (aggregate_dates [(1, one_block), (2, one_block)] [[(1, [(2, 5)])]]) 1 2
       = None"
  by (simp add: milanNodes_def one_block_def aggregate_dates_def empty_graph_def
      edge_weight_def has_node_def)

section \<open>Properties of the cell-to-country graphs\<close>

lemma add_average_value:
  "add_average weight accumulated count = Inr (weight + directional_average accumulated count)"
  by (simp add: add_average_def directional_average_def py_truediv_def)

lemma callWeight_value:
  "callWeight cd = Inr (directional_average (callIn cd) (callInCount cd)
                        + directional_average (callOut cd) (callOutCount cd))"
  by (simp add: callWeight_def add_average_value)

lemma smsWeight_value:
  "smsWeight cd = Inr (directional_average (smsIn cd) (smsInCount cd)
                       + directional_average (smsOut cd) (smsOutCount cd))"
  by (simp add: smsWeight_def add_average_value)

lemma ensure_node_wf: "wf_graph g \<Longrightarrow> wf_graph (ensure_node g n)"
  by (simp add: ensure_node_def add_node_wf)

lemma ensure_node_wt: "wf_graph g \<Longrightarrow> wt (ensure_node g n) a b = wt g a b"
  by (simp add: ensure_node_def add_node_wt)

lemma for_innerDict_sum:
  "wf_graph (graphCall gs) \<Longrightarrow> wf_graph (graphSMS gs) \<Longrightarrow>
   \<exists>gs'. for_innerDict gs node1 innerDict = Inr gs'
     \<and> wf_graph (graphCall gs') \<and> wf_graph (graphSMS gs')
     \<and> wt (graphCall gs') a b = wt (graphCall gs) a b + landed a b (inner_call node1 innerDict)
     \<and> wt (graphSMS gs') a b = wt (graphSMS gs) a b + landed a b (inner_sms node1 innerDict)"
proof (induction innerDict arbitrary: gs)
  case Nil
  then show ?case by (simp add: inner_call_def inner_sms_def landed_Nil)
next
  case (Cons item rest)
  obtain code cd where item: "item = (code, cd)" by (cases item) auto
  let ?n2 = "NStr (CHR ''c'' # code)"
  let ?cw = "directional_average (callIn cd) (callInCount cd)
               + directional_average (callOut cd) (callOutCount cd)"
  let ?sw = "directional_average (smsIn cd) (smsInCount cd)
               + directional_average (smsOut cd) (smsOutCount cd)"
  let ?gs1 = "\<lparr>graphCall = add_weight (ensure_node (graphCall gs) ?n2) node1 ?n2 ?cw,
               graphSMS = add_weight (ensure_node (graphSMS gs) ?n2) node1 ?n2 ?sw,
               graphInternet = add_weight (ensure_node (graphInternet gs) ?n2) node1 ?n2 (cdr cd)\<rparr>"
  have step: "for_innerDict gs node1 (item # rest) = for_innerDict ?gs1 node1 rest"
    by (simp add: item callWeight_value smsWeight_value Let_def)
  have wc: "wf_graph (graphCall ?gs1)" and ws: "wf_graph (graphSMS ?gs1)"
    using Cons.prems by (simp_all add: add_weight_wf ensure_node_wf)
  have c1: "wt (graphCall ?gs1) a b = wt (graphCall gs) a b
              + (if (node1 = a \<and> ?n2 = b) \<or> (node1 = b \<and> ?n2 = a) then ?cw else 0)"
    using Cons.prems(1) by (simp add: add_weight_wt ensure_node_wf ensure_node_wt)
  have s1: "wt (graphSMS ?gs1) a b = wt (graphSMS gs) a b
              + (if (node1 = a \<and> ?n2 = b) \<or> (node1 = b \<and> ?n2 = a) then ?sw else 0)"
    using Cons.prems(2) by (simp add: add_weight_wt ensure_node_wf ensure_node_wt)
  from Cons.IH [OF wc ws] obtain gs' where
    r: "for_innerDict ?gs1 node1 rest = Inr gs'" and
    w: "wf_graph (graphCall gs')" "wf_graph (graphSMS gs')" and
    c: "wt (graphCall gs') a b = wt (graphCall ?gs1) a b + landed a b (inner_call node1 rest)" and
    s: "wt (graphSMS gs') a b = wt (graphSMS ?gs1) a b + landed a b (inner_sms node1 rest)"
    by blast
  have "wt (graphCall gs') a b = wt (graphCall gs) a b + landed a b (inner_call node1 (item # rest))"
    unfolding c c1 by (simp add: item inner_call_def landed_Cons)
  moreover have "wt (graphSMS gs') a b = wt (graphSMS gs) a b + landed a b (inner_sms node1 (item # rest))"
    unfolding s s1 by (simp add: item inner_sms_def landed_Cons)
  ultimately show ?case
    unfolding step using r w by simp
qed

lemma for_graphDict_sum:
  "wf_graph (graphCall gs) \<Longrightarrow> wf_graph (graphSMS gs) \<Longrightarrow>
   \<exists>gs'. for_graphDict gs graphDict = Inr gs'
     \<and> wf_graph (graphCall gs') \<and> wf_graph (graphSMS gs')
     \<and> wt (graphCall gs') a b = wt (graphCall gs) a b + landed a b (call_contributions graphDict)
     \<and> wt (graphSMS gs') a b = wt (graphSMS gs) a b + landed a b (sms_contributions graphDict)"
proof (induction graphDict arbitrary: gs)
  case Nil
  then show ?case by (simp add: call_contributions_def sms_contributions_def landed_Nil)
next
  case (Cons item rest)
  obtain cell innerDict where item: "item = (cell, innerDict)" by (cases item) auto
  let ?n1 = "NStr (CHR ''m'' # str_int cell)"
  let ?gs1 = "\<lparr>graphCall = add_node (graphCall gs) ?n1,
                 graphSMS = add_node (graphSMS gs) ?n1,
                 graphInternet = add_node (graphInternet gs) ?n1\<rparr>"
  have wc: "wf_graph (graphCall ?gs1)" and ws: "wf_graph (graphSMS ?gs1)"
    using Cons.prems by (simp_all add: add_node_wf)
  from for_innerDict_sum [OF wc ws, of ?n1 innerDict a b] obtain gs2 where
    i: "for_innerDict ?gs1 ?n1 innerDict = Inr gs2" and
    w2: "wf_graph (graphCall gs2)" "wf_graph (graphSMS gs2)" and
    c2: "wt (graphCall gs2) a b = wt (graphCall gs) a b + landed a b (inner_call ?n1 innerDict)" and
    s2: "wt (graphSMS gs2) a b = wt (graphSMS gs) a b + landed a b (inner_sms ?n1 innerDict)"
    using Cons.prems by (auto simp: add_node_wt)
  from Cons.IH [OF w2] obtain gs' where
    r: "for_graphDict gs2 rest = Inr gs'" and
    w: "wf_graph (graphCall gs')" "wf_graph (graphSMS gs')" and
    c: "wt (graphCall gs') a b = wt (graphCall gs2) a b + landed a b (call_contributions rest)" and
    s: "wt (graphSMS gs') a b = wt (graphSMS gs2) a b + landed a b (sms_contributions rest)"
    by blast
  have step: "for_graphDict gs (item # rest) = Inr gs'"
    by (simp add: item Let_def i r)
  show ?case
    unfolding step using w c s c2 s2
    by (simp add: item call_contributions_def sms_contributions_def landed_append)
qed

lemma silent_direction_keeps_full_average:
  "callOutCount cd = 0 \<Longrightarrow> callInCount cd \<noteq> 0 \<Longrightarrow>
   callWeight cd = Inr (callIn cd / real (callInCount cd))"
  "callInCount cd = 0 \<Longrightarrow> callOutCount cd \<noteq> 0 \<Longrightarrow>
   callWeight cd = Inr (callOut cd / real (callOutCount cd))"
  by (simp_all add: callWeight_value directional_average_def)

text \<open>
  Claim C9. \<open>json_to_networkx\<close> always returns (the guarded divisions never meet a
  zero count), and the weight it leaves between two nodes of the call graph, and of the
  SMS graph, is the sum of the contributions on that pair, each the sum of the two
  directional averages: a directional sum over its own count when the count is
  nonzero, 0 otherwise.
\<close>

theorem undirected_weight_is_sum_of_directional_averages:
  "\<exists>gs. json_to_networkx graphDict = Inr gs
     \<and> (\<forall>a b. wt (graphCall gs) a b = landed a b (call_contributions graphDict)
             \<and> wt (graphSMS gs) a b = landed a b (sms_contributions graphDict))"
proof -
  let ?e = "\<lparr>graphCall = empty_graph, graphSMS = empty_graph,
             graphInternet = (empty_graph :: pynode graph)\<rparr>"
  have w: "wf_graph (graphCall ?e)" "wf_graph (graphSMS ?e)"
    by (simp_all add: wf_empty)
  from for_graphDict_sum [OF w] obtain gs where gs: "for_graphDict ?e graphDict = Inr gs"
    by blast
  have "wt (graphCall gs) a b = landed a b (call_contributions graphDict)
      \<and> wt (graphSMS gs) a b = landed a b (sms_contributions graphDict)" for a b
    using for_graphDict_sum [OF w, of graphDict a b] gs by (auto simp: wt_empty)
  then show ?thesis
    using gs by (auto simp: json_to_networkx_def)
qed


section \<open>Properties of the block-to-country redistribution\<close>

lemma set_node_attrs_simps:
  "nodes (set_node_attrs g n a) = nodes g"
  "adj (set_node_attrs g n a) = adj g"
  "node_attrs (set_node_attrs g n a) m = (if m = n then a else node_attrs g m)"
  by (simp_all add: set_node_attrs_def)

lemma for_country_edges_sum:
  "wf_graph g \<Longrightarrow> for_country_edges g sez cellFrom es = Inr g' \<Longrightarrow>
   wf_graph g' \<and>
   wt g' a b = wt g a b + landed a b (country_edge_contributions sez cellFrom es)"
proof (induction es arbitrary: g)
  case Nil
  then show ?case by (simp add: country_edge_contributions_def landed_Nil)
next
  case (Cons e rest)
  obtain cellNodeFrom cellNodeTo w where e: "e = (cellNodeFrom, cellNodeTo, w)"
    by (cases e) auto
  let ?g1 = "ensure_node g (NStr (py_str cellNodeTo))"
  let ?wgt = "w * censusAreaPercentage cellFrom"
  have wf1: "wf_graph ?g1" and wt1: "wt ?g1 a b = wt g a b"
    using Cons.prems(1) by (simp_all add: ensure_node_wf ensure_node_wt)
  have wf2: "wf_graph (add_weight ?g1 (NInt sez) cellNodeTo ?wgt)"
    by (rule add_weight_wf [OF wf1])
  from Cons.prems(2) e have
    r: "for_country_edges (add_weight ?g1 (NInt sez) cellNodeTo ?wgt) sez cellFrom rest = Inr g'"
    by (simp add: Let_def split: if_splits)
  from Cons.IH [OF wf2 r] add_weight_wt [OF wf1, of "NInt sez" cellNodeTo ?wgt a b] wt1
  show ?case
    by (simp add: e country_edge_contributions_def landed_Cons)
qed

lemma for_country_cellsFrom_sum:
  "wf_graph g \<Longrightarrow> for_country_cellsFrom g cellsGraph sez cellsFrom = Inr g' \<Longrightarrow>
   wf_graph g' \<and>
   wt g' a b = wt g a b + landed a b (country_cellsFrom_contributions cellsGraph sez cellsFrom)"
proof (induction cellsFrom arbitrary: g)
  case Nil
  then show ?case by (simp add: country_cellsFrom_contributions_def landed_Nil)
next
  case (Cons cellFrom rest)
  from Cons.prems(2) obtain g1 where
    e: "for_country_edges g sez cellFrom
          (edges_at cellsGraph (NStr (CHR ''m'' # cellID cellFrom))) = Inr g1" and
    r: "for_country_cellsFrom g1 cellsGraph sez rest = Inr g'"
    by (auto split: sum.splits)
  note fe = for_country_edges_sum [OF Cons.prems(1) e, of a b]
  from Cons.IH [OF conjunct1 [OF fe] r] fe show ?case
    by (simp add: country_cellsFrom_contributions_def landed_append)
qed

lemma for_blocksCellsMap_sum:
  "wf_graph g \<Longrightarrow> for_blocksCellsMap g cellsGraph blocksCellsMap = Inr g' \<Longrightarrow>
   wf_graph g' \<and>
   wt g' a b = wt g a b + landed a b (country_contributions blocksCellsMap cellsGraph)"
proof (induction blocksCellsMap arbitrary: g)
  case Nil
  then show ?case by (simp add: country_contributions_def landed_Nil)
next
  case (Cons item rest)
  obtain sez cellsFrom where item: "item = (sez, cellsFrom)" by (cases item) auto
  let ?g1 = "ensure_node g (NInt sez)"
  have wf1: "wf_graph ?g1" and wt1: "wt ?g1 a b = wt g a b"
    using Cons.prems(1) by (simp_all add: ensure_node_wf ensure_node_wt)
  from Cons.prems(2) item obtain g2 where
    c: "for_country_cellsFrom ?g1 cellsGraph sez cellsFrom = Inr g2" and
    r: "for_blocksCellsMap g2 cellsGraph rest = Inr g'"
    by (auto split: sum.splits)
  note fc = for_country_cellsFrom_sum [OF wf1 c, of a b]
  from Cons.IH [OF conjunct1 [OF fc] r] fc wt1 show ?case
    by (simp add: item country_contributions_def landed_append)
qed


lemma wt_cong: "nodes g' = nodes g \<Longrightarrow> adj g' = adj g \<Longrightarrow> wt g' a b = wt g a b"
  by (simp add: wt_def edge_weight_def has_node_def)

lemma annotate_nodes_frame:
  "annotate_nodes ca cm keys g ns = Inr (g', keys') \<Longrightarrow> nodes g' = nodes g \<and> adj g' = adj g"
proof (induction ns arbitrary: g keys)
  case Nil
  then show ?case by simp
next
  case (Cons n rest)
  show ?case
  proof (cases "startswith (py_str n) CHR ''c''")
    case True
    show ?thesis
    proof (cases "map_of cm (tl (py_str n))")
      case None
      with True Cons.prems show ?thesis by (simp add: Let_def)
    next
      case (Some nm)
      with True Cons.prems have
        "annotate_nodes ca cm keys
           (set_node_attrs g n
              (AList.update ''CountryName'' (case nm of None \<Rightarrow> JNull | Some name \<Rightarrow> JStr name)
                 (AList.update ''CountryCode'' (JStr (tl (py_str n))) (node_attrs g n))))
           rest = Inr (g', keys')"
        by (simp add: Let_def)
      from Cons.IH [OF this] show ?thesis by (simp add: set_node_attrs_simps)
    qed
  next
    case False
    show ?thesis
    proof (cases "map_of ca (py_str n)")
      case None
      with False Cons.prems have "annotate_nodes ca cm keys g rest = Inr (g', keys')" by simp
      from Cons.IH [OF this] show ?thesis .
    next
      case (Some rcd)
      with False Cons.prems have
        "annotate_nodes ca cm (if keys = [] then map fst rcd else keys)
           (set_node_attrs g n (update_items rcd (node_attrs g n))) rest = Inr (g', keys')"
        by simp
      from Cons.IH [OF this] show ?thesis by (simp add: set_node_attrs_simps)
    qed
  qed
qed

lemma fill_nodes_frame:
  "fill_nodes blk nv keys g ns = Inr g' \<Longrightarrow> nodes g' = nodes g \<and> adj g' = adj g"
proof (induction ns arbitrary: g)
  case Nil
  then show ?case by simp
next
  case (Cons n rest)
  show ?case
  proof (cases "blk n")
    case True
    show ?thesis
    proof (cases "fill_attrs (nv n) keys (node_attrs g n)")
      case (Inl e)
      with True Cons.prems show ?thesis by simp
    next
      case (Inr attrs)
      with True Cons.prems have
        "fill_nodes blk nv keys (set_node_attrs g n attrs) rest = Inr g'"
        by simp
      from Cons.IH [OF this] show ?thesis by (simp add: set_node_attrs_simps)
    qed
  next
    case False
    with Cons.prems have "fill_nodes blk nv keys g rest = Inr g'" by simp
    from Cons.IH [OF this] show ?thesis .
  qed
qed


lemma str_int_1: "str_int 1 = ''1''"
  by (simp add: str_int_def str_nat.simps digit_char_def)

lemma ex_country_edges:
  "edges_at ex_countryGraph (NStr ''m10'') = [(NStr ''m10'', NStr ''c39'', 100)]"
  by (simp add: ex_countryGraph_def edges_at_def graph_defs)

lemma ex_phase1:
  "for_blocksCellsMap empty_graph ex_countryGraph ex_blocksCellsMap =
     Inr \<lparr>nodes = [NInt 1, NStr ''c39''], node_attrs = (\<lambda>_. []),
          adj = (\<lambda>n. if n = NInt 1 then [(NStr ''c39'', 25)]
                      else if n = NStr ''c39'' then [(NInt 1, 25)] else [])\<rparr>"
  by (simp add: ex_blocksCellsMap_def ex_country_edges startswith_def ensure_node_def
      graph_defs Let_def fun_eq_iff)

lemma ex_country_run:
  "\<exists>g. get_block_graph ex_blocksCellsMap ex_countryGraph ex_censusAttributes
          [(''39'', None)] = Inr g
       \<and> edge_weight g (NInt 1) (NStr ''c39'') = Some 25
       \<and> node_attrs g (NStr ''c39'') = [(''CountryCode'', JStr ''39''), (''CountryName'', JNull)]"
  by (simp add: get_block_graph_def ex_phase1 ex_censusAttributes_def startswith_def
      str_int_1 set_node_attrs_def update_items_def fill_attrs_def edge_weight_def has_node_def Let_def)

lemma ex_country_contribs:
  "country_contributions ex_blocksCellsMap ex_countryGraph = [(NInt 1, NStr ''c39'', 25)]"
  "stated_country_contributions ex_blocksCellsMap ex_countryGraph = [(NInt 1, NStr ''c39'', 50)]"
  by (simp_all add: country_contributions_def country_cellsFrom_contributions_def
      country_edge_contributions_def stated_country_contributions_def
      ex_blocksCellsMap_def ex_country_edges)


text \<open>
  Claim C3, as the code has it. The weight \<open>get_block_graph\<close> leaves between two nodes
  is the sum, not halved, of the contributions that land on that pair, and each
  contribution is the cell-to-country edge's weight times one percentage, the
  \<open>censusAreaPercentage\<close> of the cell's entry (intersection area over the block's
  area). The cell-side percentage \<open>milanAreaPercentage\<close> is not read.
\<close>

theorem country_weight_is_sum_of_census_products:
  assumes "get_block_graph blocksCellsMap cellsGraph censusAttributes countryCodesMap = Inr g"
  shows "wt g a b = landed a b (country_contributions blocksCellsMap cellsGraph)"
proof -
  obtain g1 where p1: "for_blocksCellsMap empty_graph cellsGraph blocksCellsMap = Inr g1"
    using assms by (cases "for_blocksCellsMap empty_graph cellsGraph blocksCellsMap")
      (simp_all add: get_block_graph_def)
  obtain g2 keys where
    p2: "annotate_nodes censusAttributes countryCodesMap [] g1 (nodes g1) = Inr (g2, keys)"
    using assms p1
    by (cases "annotate_nodes censusAttributes countryCodesMap [] g1 (nodes g1)")
      (auto simp: get_block_graph_def)
  have p3: "fill_nodes (\<lambda>node. \<not> startswith (py_str node) CHR ''c'') node_value keys g2 (nodes g2)
           = Inr g"
    using assms p1 p2 by (simp add: get_block_graph_def)
  have "wt g a b = wt g2 a b"
    by (rule wt_cong) (simp_all add: fill_nodes_frame [OF p3])
  also have "\<dots> = wt g1 a b"
    by (rule wt_cong) (simp_all add: annotate_nodes_frame [OF p2])
  finally show ?thesis
    using for_blocksCellsMap_sum [OF wf_empty p1, of a b] by (simp add: wt_empty)
qed



text \<open>
  Witness for C3: the run returns, and the weight between block 1 and country 39 is the
  single contribution \<open>100 * 1/4\<close>.
\<close>

theorem country_weight_is_sum_of_census_products_witness:
  "\<exists>g. get_block_graph ex_blocksCellsMap ex_countryGraph ex_censusAttributes
          [(''39'', None)] = Inr g
       \<and> wt g (NInt 1) (NStr ''c39'') = 25
       \<and> country_contributions ex_blocksCellsMap ex_countryGraph
           = [(NInt 1, NStr ''c39'', 25)]"
proof -
  obtain g where g: "get_block_graph ex_blocksCellsMap ex_countryGraph ex_censusAttributes
                       [(''39'', None)] = Inr g"
    using ex_country_run by blast
  have "wt g (NInt 1) (NStr ''c39'') = 25"
    using country_weight_is_sum_of_census_products [OF g, of "NInt 1" "NStr ''c39''"]
    by (simp add: ex_country_contribs landed_def)
  with g ex_country_contribs(1) show ?thesis by blast
qed

text \<open>
  Counterexample to C3 as stated: the code leaves weight 25 between block 1 and
  country 39, while the stated product (edge weight times the source-side percentage,
  intersection area over the cell's area) would give \<open>100 * 1/2\<close>.
\<close>

theorem stated_country_product_counterexample:
  "result_weight
     (get_block_graph ex_blocksCellsMap ex_countryGraph ex_censusAttributes [(''39'', None)])
     (NInt 1) (NStr ''c39'') = Some 25
   \<and> landed (NInt 1) (NStr ''c39'')
       (stated_country_contributions ex_blocksCellsMap ex_countryGraph) = 50
   \<and> result_weight
       (get_block_graph ex_blocksCellsMap ex_countryGraph ex_censusAttributes [(''39'', None)])
       (NInt 1) (NStr ''c39'')
     \<noteq> Some (landed (NInt 1) (NStr ''c39'')
               (stated_country_contributions ex_blocksCellsMap ex_countryGraph))"
proof -
  have r: "result_weight
     (get_block_graph ex_blocksCellsMap ex_countryGraph ex_censusAttributes [(''39'', None)])
     (NInt 1) (NStr ''c39'') = Some 25"
    using ex_country_run by (auto simp: result_weight_def)
  have l: "landed (NInt 1) (NStr ''c39'')
       (stated_country_contributions ex_blocksCellsMap ex_countryGraph) = 50"
    by (simp add: ex_country_contribs landed_def)
  show ?thesis unfolding r l by simp
qed

section \<open>Properties of the attribute merge\<close>

lemma add_census_attributes_loop_frame:
  "add_census_attributes_loop tbl g missing ns = (g', missing') \<Longrightarrow>
   nodes g' = nodes g \<and> adj g' = adj g \<and>
   set missing' = set missing \<union> str_int ` {n \<in> set ns. map_of tbl (str_int n) = None}"
proof (induction ns arbitrary: g missing)
  case Nil
  then show ?case by simp
next
  case (Cons n rest)
  show ?case
  proof (cases "map_of tbl (str_int n)")
    case None
    with Cons.prems have
      "add_census_attributes_loop tbl g (List.insert (str_int n) missing) rest = (g', missing')"
      by simp
    from Cons.IH [OF this] None show ?thesis by auto
  next
    case (Some rcd)
    with Cons.prems have
      "add_census_attributes_loop tbl (set_node_attrs g n (update_items rcd (node_attrs g n)))
         missing rest = (g', missing')"
      by simp
    from Cons.IH [OF this] Some show ?thesis by (auto simp: set_node_attrs_simps)
  qed
qed

lemma add_census_attributes_frame:
  "nodes (fst (add_census_attributes g tbl)) = nodes g"
  "adj (fst (add_census_attributes g tbl)) = adj g"
  "set (snd (add_census_attributes g tbl)) =
     str_int ` {n \<in> set (nodes g). map_of tbl (str_int n) = None}"
  using add_census_attributes_loop_frame [of tbl g "[]" "nodes g"
      "fst (add_census_attributes g tbl)" "snd (add_census_attributes g tbl)"]
  by (simp_all add: add_census_attributes_def)



lemma str_int_2: "str_int 2 = ''2''"
  by (simp add: str_int_def str_nat.simps digit_char_def)

section \<open>Properties of the hole filling\<close>

lemma keys_update: "fst ` set (AList.update k v al) = insert k (fst ` set al)"
  using dom_update [of k v al] by (simp add: dom_map_of_conv_image_fst)

lemma keys_update_items: "fst ` set (update_items items attrs) = fst ` set attrs \<union> fst ` set items"
  unfolding update_items_def
proof (induction items arbitrary: attrs)
  case Nil
  then show ?case by simp
next
  case (Cons x items)
  obtain a b where x: "x = (a, b)" by (cases x) auto
  show ?case by (simp add: x Cons.IH keys_update)
qed

lemma keys_fill: "fst ` set (fold (\<lambda>key. AList.update key JNull) keys attrs) = fst ` set attrs \<union> set keys"
proof (induction keys arbitrary: attrs)
  case Nil
  then show ?case by simp
next
  case (Cons k keys)
  show ?case by (simp add: Cons.IH keys_update)
qed

lemma map_of_fill:
  "map_of (fold (\<lambda>key. AList.update key JNull) keys attrs) k =
     (if k \<in> set keys then Some JNull else map_of attrs k)"
  by (induction keys arbitrary: attrs) (auto simp: update_conv')

lemma fill_attrs_empty:
  assumes "fill_attrs nv keys [] = Inr a"
  shows "''SEZ2011'' \<in> set keys" "fst ` set a = set keys"
    "\<And>k. k \<in> set keys \<Longrightarrow> map_of a k = Some (if k = ''SEZ2011'' then nv else JNull)"
proof -
  let ?f = "fold (\<lambda>key. AList.update key JNull) keys []"
  have m: "map_of ?f ''SEZ2011'' = (if ''SEZ2011'' \<in> set keys then Some JNull else None)"
    by (simp add: map_of_fill)
  show s: "''SEZ2011'' \<in> set keys"
    using assms m by (auto simp: fill_attrs_def split: if_splits)
  then have a: "a = AList.update ''SEZ2011'' nv ?f"
    using assms m by (simp add: fill_attrs_def)
  show "fst ` set a = set keys"
    using s by (auto simp: a keys_update keys_fill)
  show "\<And>k. k \<in> set keys \<Longrightarrow> map_of a k = Some (if k = ''SEZ2011'' then nv else JNull)"
    by (simp add: a update_conv' map_of_fill)
qed

lemma fill_attrs_nonempty:
  assumes "fill_attrs nv keys attrs = Inr a" "attrs \<noteq> []"
  shows "fst ` set a = fst ` set attrs"
proof -
  from assms obtain v where v: "map_of attrs ''SEZ2011'' = Some v"
    by (auto simp: fill_attrs_def split: option.splits)
  then have "''SEZ2011'' \<in> fst ` set attrs"
    by (metis domI dom_map_of_conv_image_fst)
  then have i: "insert ''SEZ2011'' (fst ` set attrs) = fst ` set attrs" by blast
  show ?thesis
  proof (cases "v = JNull")
    case True
    with assms v have "a = AList.update ''SEZ2011'' nv attrs" by (simp add: fill_attrs_def)
    then show ?thesis by (simp add: keys_update i)
  next
    case False
    with assms v have "a = attrs" by (simp add: fill_attrs_def)
    then show ?thesis by simp
  qed
qed

lemma fill_attrs_sez:
  assumes "fill_attrs nv keys attrs = Inr a" "nv \<noteq> JNull"
  shows "\<exists>v. map_of a ''SEZ2011'' = Some v \<and> v \<noteq> JNull"
  using assms
  by (auto simp: fill_attrs_def Let_def update_conv' split: option.splits if_splits)

lemma fill_nodes_other:
  "fill_nodes blk nv keys g ns = Inr g' \<Longrightarrow> n \<notin> set ns \<Longrightarrow> node_attrs g' n = node_attrs g n"
proof (induction ns arbitrary: g)
  case Nil
  then show ?case by simp
next
  case (Cons m rest)
  show ?case
  proof (cases "blk m")
    case True
    show ?thesis
    proof (cases "fill_attrs (nv m) keys (node_attrs g m)")
      case (Inl e)
      with True Cons.prems show ?thesis by simp
    next
      case (Inr attrs)
      with True Cons.prems have
        "fill_nodes blk nv keys (set_node_attrs g m attrs) rest = Inr g'" by simp
      from Cons.IH [OF this] Cons.prems(2) show ?thesis by (simp add: set_node_attrs_simps)
    qed
  next
    case False
    with Cons.prems have "fill_nodes blk nv keys g rest = Inr g'" by simp
    from Cons.IH [OF this] Cons.prems(2) show ?thesis by simp
  qed
qed

lemma fill_nodes_at:
  "fill_nodes blk nv keys g ns = Inr g' \<Longrightarrow> distinct ns \<Longrightarrow> n \<in> set ns \<Longrightarrow> blk n \<Longrightarrow>
   fill_attrs (nv n) keys (node_attrs g n) = Inr (node_attrs g' n)"
proof (induction ns arbitrary: g)
  case Nil
  then show ?case by simp
next
  case (Cons m rest)
  show ?case
  proof (cases "blk m")
    case True
    show ?thesis
    proof (cases "fill_attrs (nv m) keys (node_attrs g m)")
      case (Inl e)
      with True Cons.prems show ?thesis by simp
    next
      case (Inr attrs)
      with True Cons.prems have
        r: "fill_nodes blk nv keys (set_node_attrs g m attrs) rest = Inr g'" by simp
      show ?thesis
      proof (cases "n = m")
        case True
        with Cons.prems(2) have "n \<notin> set rest" by simp
        from fill_nodes_other [OF r this] Inr True show ?thesis
          by (simp add: set_node_attrs_simps)
      next
        case False
        with Cons.prems have "distinct rest" "n \<in> set rest" by simp_all
        from Cons.IH [OF r this Cons.prems(4)] False show ?thesis
          by (simp add: set_node_attrs_simps)
      qed
    qed
  next
    case False
    with Cons.prems have r: "fill_nodes blk nv keys g rest = Inr g'" by simp
    from False Cons.prems have "distinct rest" "n \<in> set rest" by auto
    from Cons.IH [OF r this Cons.prems(4)] show ?thesis .
  qed
qed

lemma add_census_attributes_loop_other:
  "add_census_attributes_loop tbl g missing ns = (g', missing') \<Longrightarrow> n \<notin> set ns \<Longrightarrow>
   node_attrs g' n = node_attrs g n"
proof (induction ns arbitrary: g missing)
  case Nil
  then show ?case by simp
next
  case (Cons m rest)
  show ?case
  proof (cases "map_of tbl (str_int m)")
    case None
    with Cons.prems have
      "add_census_attributes_loop tbl g (List.insert (str_int m) missing) rest = (g', missing')"
      by simp
    from Cons.IH [OF this] Cons.prems(2) show ?thesis by simp
  next
    case (Some rcd)
    with Cons.prems have
      "add_census_attributes_loop tbl (set_node_attrs g m (update_items rcd (node_attrs g m)))
         missing rest = (g', missing')"
      by simp
    from Cons.IH [OF this] Cons.prems(2) show ?thesis by (simp add: set_node_attrs_simps)
  qed
qed

lemma add_census_attributes_loop_at:
  "add_census_attributes_loop tbl g missing ns = (g', missing') \<Longrightarrow> distinct ns \<Longrightarrow>
   n \<in> set ns \<Longrightarrow>
   node_attrs g' n =
     (case map_of tbl (str_int n) of
        None \<Rightarrow> node_attrs g n
      | Some rcd \<Rightarrow> update_items rcd (node_attrs g n))"
proof (induction ns arbitrary: g missing)
  case Nil
  then show ?case by simp
next
  case (Cons m rest)
  show ?case
  proof (cases "map_of tbl (str_int m)")
    case None
    with Cons.prems(1) have
      r: "add_census_attributes_loop tbl g (List.insert (str_int m) missing) rest = (g', missing')"
      by simp
    show ?thesis
    proof (cases "n = m")
      case True
      with Cons.prems(2) have "n \<notin> set rest" by simp
      from add_census_attributes_loop_other [OF r this] True None show ?thesis by simp
    next
      case False
      with Cons.prems have "distinct rest" "n \<in> set rest" by simp_all
      from Cons.IH [OF r this] show ?thesis .
    qed
  next
    case (Some rcd)
    let ?g1 = "set_node_attrs g m (update_items rcd (node_attrs g m))"
    from Some Cons.prems(1) have
      r: "add_census_attributes_loop tbl ?g1 missing rest = (g', missing')"
      by simp
    show ?thesis
    proof (cases "n = m")
      case True
      with Cons.prems(2) have "n \<notin> set rest" by simp
      from add_census_attributes_loop_other [OF r this] True Some show ?thesis
        by (simp add: set_node_attrs_simps)
    next
      case False
      with Cons.prems have "distinct rest" "n \<in> set rest" by simp_all
      from Cons.IH [OF r this] False show ?thesis
        by (simp add: set_node_attrs_simps cong: option.case_cong)
    qed
  qed
qed

lemma first_keys_source:
  assumes "first_keys g \<noteq> []"
  shows "\<exists>n0 \<in> set (nodes g). node_attrs g n0 \<noteq> [] \<and> first_keys g = map fst (node_attrs g n0)"
proof (cases "filter (\<lambda>n. node_attrs g n \<noteq> []) (nodes g)")
  case Nil
  with assms show ?thesis by (simp add: first_keys_def)
next
  case (Cons n0 rest)
  then have "n0 \<in> set (filter (\<lambda>n. node_attrs g n \<noteq> []) (nodes g))" by simp
  then have "n0 \<in> set (nodes g)" "node_attrs g n0 \<noteq> []" by simp_all
  with Cons show ?thesis by (auto simp: first_keys_def)
qed

lemma check_lengths_same: "check_lengths g = Inr g' \<Longrightarrow> g' = g"
  by (auto simp: check_lengths_def split: list.splits if_splits)

lemma merged_attrs:
  assumes "\<And>m. node_attrs g m = []" "distinct (nodes g)" "n \<in> set (nodes g)"
  shows "node_attrs (fst (add_census_attributes g tbl)) n =
           (case map_of tbl (str_int n) of None \<Rightarrow> [] | Some rcd \<Rightarrow> update_items rcd [])"
proof -
  have "add_census_attributes_loop tbl g [] (nodes g) =
          (fst (add_census_attributes g tbl), snd (add_census_attributes g tbl))"
    by (simp add: add_census_attributes_def)
  from add_census_attributes_loop_at [OF this assms(2,3)] show ?thesis
    by (simp add: assms(1) cong: option.case_cong)
qed

lemma merged_keys_uniform:
  assumes "\<And>m. node_attrs g m = []" "distinct (nodes g)" "n \<in> set (nodes g)"
    and "\<forall>rcd \<in> snd ` set tbl. fst ` set rcd = K"
    and "node_attrs (fst (add_census_attributes g tbl)) n \<noteq> []"
  shows "fst ` set (node_attrs (fst (add_census_attributes g tbl)) n) = K"
proof (cases "map_of tbl (str_int n)")
  case None
  with merged_attrs [OF assms(1,2,3), of tbl] assms(5) show ?thesis by simp
next
  case (Some rcd)
  then have "(str_int n, rcd) \<in> set tbl" by (rule map_of_SomeD)
  then have "rcd \<in> snd ` set tbl" by force
  with assms(4) have "fst ` set rcd = K" by blast
  with merged_attrs [OF assms(1,2,3), of tbl] Some show ?thesis
    by (simp add: keys_update_items)
qed

text \<open>
  Claim C8, as the code has it. The block graph starts without attributes;
  \<open>add_census_attributes\<close> merges the records and \<open>census_block_graph_fill_in_holes\<close>
  returns. Then a node without a record has exactly the canonical keys (those of the
  first node with attributes), every value null except \<open>SEZ2011\<close>, which is the node's
  own identifier; no node is left with a null \<open>SEZ2011\<close>; and when all records share
  one key set, every node has that key set. (The code itself checks only that all
  nodes have equally many attributes.)
\<close>

theorem attribute_keys_after_fill:
  assumes e: "\<And>m. node_attrs g m = []" and d: "distinct (nodes g)"
    and run: "census_block_graph_fill_in_holes (fst (add_census_attributes g blocksAttr)) = Inr g'"
    and n: "n \<in> set (nodes g)"
  shows "(map_of blocksAttr (str_int n) = None \<longrightarrow>
           fst ` set (node_attrs g' n) = set (first_keys (fst (add_census_attributes g blocksAttr)))
         \<and> (\<forall>k \<in> set (first_keys (fst (add_census_attributes g blocksAttr))).
              map_of (node_attrs g' n) k = Some (if k = ''SEZ2011'' then JInt n else JNull)))
       \<and> (\<exists>v. map_of (node_attrs g' n) ''SEZ2011'' = Some v \<and> v \<noteq> JNull)
       \<and> ((\<forall>rcd \<in> snd ` set blocksAttr. fst ` set rcd = K) \<longrightarrow>
             fst ` set (node_attrs g' n) = K)"
proof -
  let ?g1 = "fst (add_census_attributes g blocksAttr)"
  let ?keys = "first_keys ?g1"
  have nodes1: "nodes ?g1 = nodes g" by (rule add_census_attributes_frame(1))
  obtain g2 where
    f: "fill_nodes (\<lambda>node. True) JInt ?keys ?g1 (nodes ?g1) = Inr g2" and
    c: "check_lengths g2 = Inr g'"
    using run
    by (cases "fill_nodes (\<lambda>node. True) JInt ?keys ?g1 (nodes ?g1)")
      (simp_all add: census_block_graph_fill_in_holes_def)
  have g': "g' = g2" by (rule check_lengths_same [OF c])
  have fa: "fill_attrs (JInt n) ?keys (node_attrs ?g1 n) = Inr (node_attrs g' n)"
    using fill_nodes_at [OF f, of n] d n by (simp add: nodes1 g')
  have p1: "fst ` set (node_attrs g' n) = set ?keys
         \<and> (\<forall>k \<in> set ?keys.
              map_of (node_attrs g' n) k = Some (if k = ''SEZ2011'' then JInt n else JNull))"
    if "map_of blocksAttr (str_int n) = None"
  proof -
    have "node_attrs ?g1 n = []"
      using merged_attrs [OF e d n, of blocksAttr] that by simp
    with fa have "fill_attrs (JInt n) ?keys [] = Inr (node_attrs g' n)" by simp
    from fill_attrs_empty(2,3) [OF this] show ?thesis by blast
  qed
  have p2: "\<exists>v. map_of (node_attrs g' n) ''SEZ2011'' = Some v \<and> v \<noteq> JNull"
    by (rule fill_attrs_sez [OF fa]) simp
  have p3: "fst ` set (node_attrs g' n) = K"
    if u: "\<forall>rcd \<in> snd ` set blocksAttr. fst ` set rcd = K"
  proof (cases "node_attrs ?g1 n = []")
    case False
    from fill_attrs_nonempty [OF fa False] merged_keys_uniform [OF e d n u False]
    show ?thesis by simp
  next
    case True
    with fa have fe: "fill_attrs (JInt n) ?keys [] = Inr (node_attrs g' n)" by simp
    from fill_attrs_empty(1) [OF fe] have "?keys \<noteq> []" by auto
    from first_keys_source [OF this] obtain n0 where
      n0: "n0 \<in> set (nodes ?g1)" "node_attrs ?g1 n0 \<noteq> []"
        "?keys = map fst (node_attrs ?g1 n0)"
      by blast
    from n0(1) have "n0 \<in> set (nodes g)" by (simp add: nodes1)
    from merged_keys_uniform [OF e d this u n0(2)] n0(3) have "set ?keys = K" by simp
    with fill_attrs_empty(2) [OF fe] show ?thesis by simp
  qed
  from p1 p2 p3 show ?thesis by blast
qed


lemma ex_fill_run:
  "\<exists>g'. census_block_graph_fill_in_holes
           (fst (add_census_attributes ex_two_blocks ex_censusAttributes)) = Inr g'"
  by (simp add: census_block_graph_fill_in_holes_def add_census_attributes_def
      ex_two_blocks_def ex_censusAttributes_def graph_defs str_int_1 str_int_2
      update_items_def set_node_attrs_def first_keys_def fill_attrs_def check_lengths_def)

lemma ex_first_keys:
  "first_keys (fst (add_census_attributes ex_two_blocks ex_censusAttributes))
     = [''SEZ2011'', ''P1'']"
  by (simp add: add_census_attributes_def ex_two_blocks_def ex_censusAttributes_def
      graph_defs str_int_1 str_int_2 update_items_def set_node_attrs_def first_keys_def)

text \<open>
  Witness for C8: block 1 has the record \<open>{SEZ2011: 1, P1: 250}\<close>, block 2 has none;
  after the fill block 2 has the keys \<open>SEZ2011\<close> and \<open>P1\<close>, with \<open>SEZ2011 = 2\<close> and
  \<open>P1\<close> null.
\<close>

theorem attribute_keys_after_fill_witness:
  "\<exists>g'. census_block_graph_fill_in_holes
           (fst (add_census_attributes ex_two_blocks ex_censusAttributes)) = Inr g'
        \<and> fst ` set (node_attrs g' 2) = {''SEZ2011'', ''P1''}
        \<and> map_of (node_attrs g' 2) ''SEZ2011'' = Some (JInt 2)
        \<and> map_of (node_attrs g' 2) ''P1'' = Some JNull
        \<and> fst ` set (node_attrs g' 1) = {''SEZ2011'', ''P1''}"
proof -
  let ?tbl = ex_censusAttributes
  obtain g' where run: "census_block_graph_fill_in_holes
           (fst (add_census_attributes ex_two_blocks ?tbl)) = Inr g'"
    using ex_fill_run by blast
  have e: "\<And>m. node_attrs ex_two_blocks m = []"
    by (simp add: ex_two_blocks_def graph_defs)
  have ns: "nodes ex_two_blocks = [1, 2]"
    by (simp add: ex_two_blocks_def graph_defs)
  have d: "distinct (nodes ex_two_blocks)" unfolding ns by simp
  have n1: "1 \<in> set (nodes ex_two_blocks)" and n2: "2 \<in> set (nodes ex_two_blocks)"
    unfolding ns by simp_all
  have none: "map_of ?tbl (str_int 2) = None"
    by (simp add: ex_censusAttributes_def str_int_2)
  have u: "\<forall>rcd \<in> snd ` set ?tbl. fst ` set rcd = {''SEZ2011'', ''P1''}"
    by (simp add: ex_censusAttributes_def)
  from attribute_keys_after_fill [OF e d run n2, of "{''SEZ2011'', ''P1''}"] none
  have k2: "fst ` set (node_attrs g' 2) = {''SEZ2011'', ''P1''}"
    and v2: "\<forall>k \<in> {''SEZ2011'', ''P1''}.
               map_of (node_attrs g' 2) k = Some (if k = ''SEZ2011'' then JInt 2 else JNull)"
    unfolding ex_first_keys by auto
  from attribute_keys_after_fill [OF e d run n1, of "{''SEZ2011'', ''P1''}"] u
  have k1: "fst ` set (node_attrs g' 1) = {''SEZ2011'', ''P1''}" by blast
  from v2 have "map_of (node_attrs g' 2) ''SEZ2011'' = Some (JInt 2)"
    "map_of (node_attrs g' 2) ''P1'' = Some JNull" by simp_all
  with run k1 k2 show ?thesis by blast
qed

text \<open>
  Counterexample to C8 as stated: blocks 1 and 2 have records with different fields;
  merge and fill return, and the two nodes keep different key sets.
\<close>

theorem different_key_sets_counterexample:
  "result_keys (census_block_graph_fill_in_holes
                  (fst (add_census_attributes ex_two_blocks ex_mixedAttributes))) 1
     = Some [''SEZ2011'', ''P1'']
   \<and> result_keys (census_block_graph_fill_in_holes
                    (fst (add_census_attributes ex_two_blocks ex_mixedAttributes))) 2
     = Some [''SEZ2011'', ''E1'']"
  by (simp add: result_keys_def census_block_graph_fill_in_holes_def
      add_census_attributes_def ex_two_blocks_def ex_mixedAttributes_def graph_defs
      str_int_1 str_int_2 update_items_def set_node_attrs_def first_keys_def
      fill_attrs_def check_lengths_def)


section \<open>Properties of the runs when records are missing\<close>

text \<open>
  The redistribution loops of \<open>get_block_graph\<close> leave a graph with distinct nodes and
  no node attributes.
\<close>

section \<open>Phase 1 leaves distinct nodes and no attributes\<close>

lemma add_node_clean:
  "distinct (nodes g) \<Longrightarrow> distinct (nodes (add_node g n))"
  "(\<And>m. node_attrs g m = []) \<Longrightarrow> node_attrs (add_node g n) m = []"
  by (simp_all add: add_node_def has_node_def)

lemma set_weight_clean:
  "nodes (set_weight g u v w) = nodes g"
  "node_attrs (set_weight g u v w) = node_attrs g"
  by (simp_all add: set_weight_def)

lemma add_weight_clean:
  "distinct (nodes g) \<Longrightarrow> distinct (nodes (add_weight g u v w))"
  "(\<And>m. node_attrs g m = []) \<Longrightarrow> node_attrs (add_weight g u v w) m = []"
  by (simp_all add: add_weight_def add_edge_def set_weight_clean add_node_clean
      split: option.splits)

lemma ensure_node_clean:
  "distinct (nodes g) \<Longrightarrow> distinct (nodes (ensure_node g n))"
  "(\<And>m. node_attrs g m = []) \<Longrightarrow> node_attrs (ensure_node g n) m = []"
  by (simp_all add: ensure_node_def add_node_clean)

lemma for_country_edges_clean:
  "for_country_edges g sez cellFrom es = Inr g' \<Longrightarrow>
   distinct (nodes g) \<Longrightarrow> (\<And>m. node_attrs g m = []) \<Longrightarrow>
   distinct (nodes g') \<and> (\<forall>m. node_attrs g' m = [])"
proof (induction es arbitrary: g)
  case Nil
  then show ?case by simp
next
  case (Cons e rest)
  obtain cellNodeFrom cellNodeTo w where e: "e = (cellNodeFrom, cellNodeTo, w)"
    by (cases e) auto
  let ?g2 = "add_weight (ensure_node g (NStr (py_str cellNodeTo))) (NInt sez) cellNodeTo
               (w * censusAreaPercentage cellFrom)"
  from Cons.prems(1) e have r: "for_country_edges ?g2 sez cellFrom rest = Inr g'"
    by (simp add: Let_def split: if_splits)
  have d: "distinct (nodes ?g2)"
    by (intro add_weight_clean(1) ensure_node_clean(1) Cons.prems(2))
  have a: "\<And>m. node_attrs ?g2 m = []"
    by (intro add_weight_clean(2) ensure_node_clean(2) Cons.prems(3))
  from Cons.IH [OF r d a] show ?case .
qed

lemma for_country_cellsFrom_clean:
  "for_country_cellsFrom g cellsGraph sez cellsFrom = Inr g' \<Longrightarrow>
   distinct (nodes g) \<Longrightarrow> (\<And>m. node_attrs g m = []) \<Longrightarrow>
   distinct (nodes g') \<and> (\<forall>m. node_attrs g' m = [])"
proof (induction cellsFrom arbitrary: g)
  case Nil
  then show ?case by simp
next
  case (Cons cellFrom rest)
  from Cons.prems(1) obtain g1 where
    e: "for_country_edges g sez cellFrom
          (edges_at cellsGraph (NStr (CHR ''m'' # cellID cellFrom))) = Inr g1" and
    r: "for_country_cellsFrom g1 cellsGraph sez rest = Inr g'"
    by (cases "for_country_edges g sez cellFrom
          (edges_at cellsGraph (NStr (CHR ''m'' # cellID cellFrom)))") simp_all
  from for_country_edges_clean [OF e Cons.prems(2,3)]
  have "distinct (nodes g1)" "\<And>m. node_attrs g1 m = []" by simp_all
  from Cons.IH [OF r this] show ?case .
qed

lemma for_blocksCellsMap_clean:
  "for_blocksCellsMap g cellsGraph blocksCellsMap = Inr g' \<Longrightarrow>
   distinct (nodes g) \<Longrightarrow> (\<And>m. node_attrs g m = []) \<Longrightarrow>
   distinct (nodes g') \<and> (\<forall>m. node_attrs g' m = [])"
proof (induction blocksCellsMap arbitrary: g)
  case Nil
  then show ?case by simp
next
  case (Cons item rest)
  obtain sez cellsFrom where item: "item = (sez, cellsFrom)" by (cases item) auto
  from Cons.prems(1) item obtain g1 where
    c: "for_country_cellsFrom (ensure_node g (NInt sez)) cellsGraph sez cellsFrom = Inr g1" and
    r: "for_blocksCellsMap g1 cellsGraph rest = Inr g'"
    by (cases "for_country_cellsFrom (ensure_node g (NInt sez)) cellsGraph sez cellsFrom")
      simp_all
  have d: "distinct (nodes (ensure_node g (NInt sez)))"
    by (rule ensure_node_clean(1) [OF Cons.prems(2)])
  have a: "\<And>m. node_attrs (ensure_node g (NInt sez)) m = []"
    by (rule ensure_node_clean(2) [OF Cons.prems(3)])
  from for_country_cellsFrom_clean [OF c d a]
  have "distinct (nodes g1)" "\<And>m. node_attrs g1 m = []" by simp_all
  from Cons.IH [OF r this] show ?case .
qed

lemma phase1_clean:
  assumes "for_blocksCellsMap empty_graph cellsGraph blocksCellsMap = Inr g1"
  shows "distinct (nodes g1)" "node_attrs g1 m = []"
  using for_blocksCellsMap_clean [OF assms] by (simp_all add: empty_graph_def)








lemma annotate_nodes_no_record:
  "annotate_nodes ca cm keys g ns = Inr (g', keys') \<Longrightarrow>
   (\<And>n. n \<in> set ns \<Longrightarrow> \<not> startswith (py_str n) CHR ''c'' \<Longrightarrow> map_of ca (py_str n) = None) \<Longrightarrow>
   keys' = keys \<and> (\<forall>n. \<not> startswith (py_str n) CHR ''c'' \<longrightarrow> node_attrs g' n = node_attrs g n)"
proof (induction ns arbitrary: g)
  case Nil
  then show ?case by simp
next
  case (Cons m rest)
  have restok: "\<And>n. n \<in> set rest \<Longrightarrow> \<not> startswith (py_str n) CHR ''c'' \<Longrightarrow>
                  map_of ca (py_str n) = None"
    using Cons.prems(2) by simp
  show ?case
  proof (cases "startswith (py_str m) CHR ''c''")
    case True
    show ?thesis
    proof (cases "map_of cm (tl (py_str m))")
      case None
      with True Cons.prems(1) show ?thesis by (simp add: Let_def)
    next
      case (Some nm')
      with True Cons.prems(1) have
        r: "annotate_nodes ca cm keys
           (set_node_attrs g m
              (AList.update ''CountryName'' (case nm' of None \<Rightarrow> JNull | Some name \<Rightarrow> JStr name)
                 (AList.update ''CountryCode'' (JStr (tl (py_str m))) (node_attrs g m))))
           rest = Inr (g', keys')"
        by (simp add: Let_def)
      from Cons.IH [OF r restok] True show ?thesis
        by (auto simp: set_node_attrs_simps)
    qed
  next
    case False
    with Cons.prems(2) [of m] have "map_of ca (py_str m) = None" by simp
    with False Cons.prems(1) have
      r: "annotate_nodes ca cm keys g rest = Inr (g', keys')" by simp
    from Cons.IH [OF r restok] show ?thesis .
  qed
qed

lemma annotate_nodes_error:
  "annotate_nodes ca cm keys g ns = Inl e \<Longrightarrow> e = KeyError"
proof (induction ns arbitrary: g keys)
  case Nil
  then show ?case by simp
next
  case (Cons m rest)
  show ?case
  proof (cases "startswith (py_str m) CHR ''c''")
    case True
    show ?thesis
    proof (cases "map_of cm (tl (py_str m))")
      case None
      with True Cons.prems show ?thesis by (simp add: Let_def)
    next
      case (Some nm')
      with True Cons.prems have
        "annotate_nodes ca cm keys
           (set_node_attrs g m
              (AList.update ''CountryName'' (case nm' of None \<Rightarrow> JNull | Some name \<Rightarrow> JStr name)
                 (AList.update ''CountryCode'' (JStr (tl (py_str m))) (node_attrs g m))))
           rest = Inl e"
        by (simp add: Let_def)
      then show ?thesis by (rule Cons.IH)
    qed
  next
    case False
    show ?thesis
    proof (cases "map_of ca (py_str m)")
      case None
      with False Cons.prems have "annotate_nodes ca cm keys g rest = Inl e" by simp
      then show ?thesis by (rule Cons.IH)
    next
      case (Some rcd)
      with False Cons.prems have
        "annotate_nodes ca cm (if keys = [] then map fst rcd else keys)
           (set_node_attrs g m (update_items rcd (node_attrs g m))) rest = Inl e"
        by simp
      then show ?thesis by (rule Cons.IH)
    qed
  qed
qed

lemma annotate_nodes_aborts:
  "n \<in> set ns \<Longrightarrow> startswith (py_str n) CHR ''c'' \<Longrightarrow> map_of cm (tl (py_str n)) = None \<Longrightarrow>
   annotate_nodes ca cm keys g ns = Inl KeyError"
proof (induction ns arbitrary: g keys)
  case Nil
  then show ?case by simp
next
  case (Cons m rest)
  show ?case
  proof (cases "annotate_nodes ca cm keys g (m # rest)")
    case (Inl e)
    with annotate_nodes_error [OF Inl] show ?thesis by simp
  next
    case (Inr res)
    obtain g' keys' where res: "res = (g', keys')" by (cases res) auto
    have False
    proof (cases "startswith (py_str m) CHR ''c''")
      case True
      show ?thesis
      proof (cases "map_of cm (tl (py_str m))")
        case None
        with True Inr show ?thesis by (simp add: Let_def)
      next
        case (Some nm')
        with Cons.prems have nm: "n \<noteq> m" by auto
        with Cons.prems(1) have nr: "n \<in> set rest" by simp
        from Some True Inr have
          "annotate_nodes ca cm keys
             (set_node_attrs g m
                (AList.update ''CountryName'' (case nm' of None \<Rightarrow> JNull | Some name \<Rightarrow> JStr name)
                   (AList.update ''CountryCode'' (JStr (tl (py_str m))) (node_attrs g m))))
             rest = Inr res"
          by (simp add: Let_def)
        with Cons.IH [OF nr Cons.prems(2,3)] show ?thesis by simp
      qed
    next
      case False
      with Cons.prems have nm: "n \<noteq> m" by auto
      with Cons.prems(1) have nr: "n \<in> set rest" by simp
      show ?thesis
      proof (cases "map_of ca (py_str m)")
        case None
        with False Inr have "annotate_nodes ca cm keys g rest = Inr res" by simp
        with Cons.IH [OF nr Cons.prems(2,3)] show ?thesis by simp
      next
        case (Some rcd)
        with False Inr have
          "annotate_nodes ca cm (if keys = [] then map fst rcd else keys)
             (set_node_attrs g m (update_items rcd (node_attrs g m))) rest = Inr res"
          by simp
        with Cons.IH [OF nr Cons.prems(2,3)] show ?thesis by simp
      qed
    qed
    then show ?thesis ..
  qed
qed

lemma fill_attrs_error: "fill_attrs nv keys attrs = Inl e \<Longrightarrow> e = KeyError"
  by (auto simp: fill_attrs_def Let_def split: option.splits)

lemma fill_attrs_no_keys: "fill_attrs nv [] [] = Inl KeyError"
  by (simp add: fill_attrs_def)

lemma fill_nodes_error: "fill_nodes blk nv keys g ns = Inl e \<Longrightarrow> e = KeyError"
proof (induction ns arbitrary: g)
  case Nil
  then show ?case by simp
next
  case (Cons m rest)
  show ?case
  proof (cases "blk m")
    case True
    show ?thesis
    proof (cases "fill_attrs (nv m) keys (node_attrs g m)")
      case (Inl e')
      with True Cons.prems have "e = e'" by simp
      with fill_attrs_error [OF Inl] show ?thesis by simp
    next
      case (Inr a)
      with True Cons.prems have
        "fill_nodes blk nv keys (set_node_attrs g m a) rest = Inl e" by simp
      then show ?thesis by (rule Cons.IH)
    qed
  next
    case False
    with Cons.prems have "fill_nodes blk nv keys g rest = Inl e" by simp
    then show ?thesis by (rule Cons.IH)
  qed
qed

lemma fill_nodes_aborts:
  "n \<in> set ns \<Longrightarrow> blk n \<Longrightarrow> node_attrs g n = [] \<Longrightarrow>
   fill_nodes blk nv [] g ns = Inl KeyError"
proof (induction ns arbitrary: g)
  case Nil
  then show ?case by simp
next
  case (Cons m rest)
  show ?case
  proof (cases "fill_nodes blk nv [] g (m # rest)")
    case (Inl e)
    with fill_nodes_error [OF Inl] show ?thesis by simp
  next
    case (Inr g')
    have False
    proof (cases "blk m")
      case True
      show ?thesis
      proof (cases "fill_attrs (nv m) [] (node_attrs g m)")
        case (Inl e')
        with True Inr show ?thesis by simp
      next
        case (Inr a)
        with Cons.prems(3) fill_attrs_no_keys [of "nv m"] have nm: "n \<noteq> m" by auto
        with Cons.prems(1) have nr: "n \<in> set rest" by simp
        have e: "node_attrs (set_node_attrs g m a) n = []"
          using nm Cons.prems(3) by (simp add: set_node_attrs_simps)
        from True Inr \<open>fill_nodes blk nv [] g (m # rest) = Inr g'\<close> have
          "fill_nodes blk nv [] (set_node_attrs g m a) rest = Inr g'" by simp
        with Cons.IH [OF nr Cons.prems(2) e] show ?thesis by simp
      qed
    next
      case False
      with Cons.prems have nm: "n \<noteq> m" by auto
      with Cons.prems(1) have nr: "n \<in> set rest" by simp
      from False Inr have "fill_nodes blk nv [] g rest = Inr g'" by simp
      with Cons.IH [OF nr Cons.prems(2,3)] show ?thesis by simp
    qed
    then show ?thesis ..
  qed
qed


lemma get_block_graph_aborts_without_name:
  assumes loops: "for_blocksCellsMap empty_graph cellsGraph blocksCellsMap = Inr g1"
    and n: "n \<in> set (nodes g1)" "startswith (py_str n) CHR ''c''"
      "map_of countryCodesMap (tl (py_str n)) = None"
  shows "get_block_graph blocksCellsMap cellsGraph censusAttributes countryCodesMap = Inl KeyError"
  by (simp add: get_block_graph_def loops annotate_nodes_aborts [OF n])

lemma get_block_graph_aborts_without_records:
  assumes loops: "for_blocksCellsMap empty_graph cellsGraph blocksCellsMap = Inr g1"
    and n: "n \<in> set (nodes g1)" "\<not> startswith (py_str n) CHR ''c''"
    and none: "\<And>m. m \<in> set (nodes g1) \<Longrightarrow> \<not> startswith (py_str m) CHR ''c'' \<Longrightarrow>
                 map_of censusAttributes (py_str m) = None"
  shows "get_block_graph blocksCellsMap cellsGraph censusAttributes countryCodesMap = Inl KeyError"
proof (cases "annotate_nodes censusAttributes countryCodesMap [] g1 (nodes g1)")
  case (Inl e)
  with annotate_nodes_error [OF Inl] show ?thesis
    by (simp add: get_block_graph_def loops)
next
  case (Inr res)
  obtain g2 keys where res: "res = (g2, keys)" by (cases res) auto
  from Inr res have r2: "annotate_nodes censusAttributes countryCodesMap [] g1 (nodes g1)
                           = Inr (g2, keys)" by simp
  from annotate_nodes_no_record [OF r2 none] n(2) have
    k: "keys = []" and a: "node_attrs g2 n = node_attrs g1 n" by simp_all
  have e: "node_attrs g2 n = []" using a phase1_clean(2) [OF loops] by simp
  have n2: "n \<in> set (nodes g2)" using annotate_nodes_frame [OF r2] n(1) by simp
  have "fill_nodes (\<lambda>node. \<not> startswith (py_str node) CHR ''c'') node_value [] g2 (nodes g2)
          = Inl KeyError"
    by (rule fill_nodes_aborts [OF n2 _ e]) (rule n(2))
  then show ?thesis by (simp add: get_block_graph_def loops r2 k)
qed








lemma fill_in_holes_aborts_without_records:
  assumes e: "\<And>m. node_attrs g m = []" and d: "distinct (nodes g)"
    and n: "n \<in> set (nodes g)"
    and none: "\<And>m. m \<in> set (nodes g) \<Longrightarrow> map_of blocksAttr (str_int m) = None"
  shows "census_block_graph_fill_in_holes (fst (add_census_attributes g blocksAttr)) = Inl KeyError"
proof -
  let ?g1 = "fst (add_census_attributes g blocksAttr)"
  have nodes1: "nodes ?g1 = nodes g" by (rule add_census_attributes_frame(1))
  have ma: "node_attrs ?g1 m = []" if "m \<in> set (nodes g)" for m
    using merged_attrs [OF e d that, of blocksAttr] none [OF that] by simp
  have "filter (\<lambda>n. node_attrs ?g1 n \<noteq> []) (nodes ?g1) = []"
    unfolding nodes1 using ma by (simp add: filter_empty_conv)
  then have k: "first_keys ?g1 = []" by (simp add: first_keys_def)
  have n1: "n \<in> set (nodes ?g1)" using n by (simp add: nodes1)
  have "fill_nodes (\<lambda>node. True) JInt [] ?g1 (nodes ?g1) = Inl KeyError"
    by (rule fill_nodes_aborts [OF n1 _ ma [OF n]]) simp
  then show ?thesis by (simp add: census_block_graph_fill_in_holes_def k)
qed





end
